theory Spec2Isabelle
  imports Complex_Main
begin

section \<open>The AI10 index script: data model\<close>

text \<open>
  The script keeps its state in module-level globals: the basket \<^verbatim>\<open>TICKERS\<close>, the
  dictionary \<^verbatim>\<open>data_store\<close>, the two history lists and the matplotlib artists.
  The model threads them through every function as one record. Prices, share counts and
  index values are Python/numpy floats in the source; they are real numbers here, so
  rounding, infinities and NaN are outside the model (the one quotient by a stored
  previous close that can be zero is written out, see \<open>daily_change_pct\<close>).
\<close>

subsection \<open>Configuration\<close>

definition TICKERS :: "string list" where
  "TICKERS = [''NVDA'', ''MSFT'', ''AAPL'', ''GOOGL'', ''AVGO'', ''META'', ''NFLX'', ''AMZN'',
              ''TSLA'', ''AMD'']"

definition INDEX_BASE_VALUE :: real where
  "INDEX_BASE_VALUE = 1000"

definition MAX_DATAPOINTS :: nat where
  "MAX_DATAPOINTS = 300"

subsection \<open>Exceptions and values of the data provider\<close>

datatype exn =
    ConnectionError string
  | ValueError string
  | KeyError string
  | IndexError
  | ZeroDivisionError
  | TypeError
  | ProviderError string

text \<open>A value of the \<^verbatim>\<open>stock.info\<close> dictionary: a number or \<^verbatim>\<open>None\<close>.\<close>

datatype pyval = PyNone | PyNum real

type_synonym info = "string \<rightharpoonup> pyval"

text \<open>
  The frame \<^verbatim>\<open>df['Close']\<close> of a download: one column per ticker, one row per bar.
\<close>

record table =
  columns :: "string list"
  rows :: "(string \<Rightarrow> real) list"

definition tbl_empty :: "table \<Rightarrow> bool" where
  "tbl_empty t \<longleftrightarrow> columns t = [] \<or> rows t = []"

type_synonym prices = "string \<rightharpoonup> real"

text \<open>\<^verbatim>\<open>live_data['Close'].iloc[-1]\<close>, a series indexed by the columns.\<close>

definition last_row :: "table \<Rightarrow> prices" where
  "last_row t = (\<lambda>k. if k \<in> set (columns t) then Some (last (rows t) k) else None)"

text \<open>\<^verbatim>\<open>hist_data['Close'][ticker].iloc[-2]\<close>.\<close>

definition close_iloc_m2 :: "table \<Rightarrow> string \<Rightarrow> exn + real" where
  "close_iloc_m2 t ticker =
     (if ticker \<notin> set (columns t) then Inl (KeyError ticker)
      else if length (rows t) < 2 then Inl IndexError
      else Inr ((rows t ! (length (rows t) - 2)) ticker))"

subsection \<open>Display\<close>

datatype color = Green | Red | Neutral | Primary

text \<open>
  The quotient \<^verbatim>\<open>(price - prev_close) / prev_close * 100\<close> is taken on numpy floats,
  where a zero divisor gives an infinity or NaN and raises nothing.
\<close>

datatype pct = Fin real | PInf | NInf | NaN

text \<open>
  What a text artist shows: nothing yet, the ticker label, the formatted price or the
  formatted percentage (kept as the number that is formatted).
\<close>

datatype shown = Blank | Label string | PriceText real | PctText pct

record artist =
  a_text :: shown
  a_color :: color

type_synonym artists = "artist \<times> artist \<times> artist"

subsection \<open>The program state\<close>

record state =
  tickers :: "string list"
  shares_outstanding :: "string \<rightharpoonup> real"
  base_market_cap :: real
  prev_close :: "string \<rightharpoonup> real"
  last_price :: "string \<rightharpoonup> real"
  text_artists :: "string \<rightharpoonup> artists"
  index_values :: "real list"
  timestamps :: "string list"
  line_data :: "nat list \<times> real list"
  xlim :: "(real \<times> real) option"
  ylim :: "(real \<times> real) option"

text \<open>
  Lines 81--87: one sidebar row per ticker of the basket as it is when the module is
  loaded, that is before \<open>initialize_index\<close> runs.
\<close>

definition sidebar_row :: "string \<Rightarrow> artists" where
  "sidebar_row ticker =
     (\<lparr>a_text = Label (ticker @ '':''), a_color = Primary\<rparr>,
      \<lparr>a_text = Blank, a_color = Primary\<rparr>,
      \<lparr>a_text = Blank, a_color = Primary\<rparr>)"

fun setup_sidebar :: "string list \<Rightarrow> (string \<rightharpoonup> artists) \<Rightarrow> (string \<rightharpoonup> artists)" where
  "setup_sidebar [] m = m"
| "setup_sidebar (ticker # ts) m = setup_sidebar ts (m(ticker \<mapsto> sidebar_row ticker))"

definition module_state :: "string list \<Rightarrow> state" where
  "module_state ts =
     \<lparr>tickers = ts,
      shares_outstanding = Map.empty,
      base_market_cap = 0,
      prev_close = Map.empty,
      last_price = Map.empty,
      text_artists = setup_sidebar ts Map.empty,
      index_values = [],
      timestamps = [],
      line_data = ([], []),
      xlim = None,
      ylim = None\<rparr>"

section \<open>The initializer\<close>

record init_env =
  hist_fetch :: "exn + table"
  info_fetch :: "string \<Rightarrow> exn + info"

datatype init_event = Initialized string real | Excluded string exn

text \<open>\<^verbatim>\<open>info.get(key, default)\<close>.\<close>

definition info_get :: "info \<Rightarrow> string \<Rightarrow> pyval \<Rightarrow> pyval" where
  "info_get dict k d = (case dict k of None \<Rightarrow> d | Some v \<Rightarrow> v)"

text \<open>Python's truth value of a number or \<^verbatim>\<open>None\<close>.\<close>

fun truthy :: "pyval \<Rightarrow> bool" where
  "truthy PyNone = False"
| "truthy (PyNum x) = (x \<noteq> 0)"

text \<open>Python's \<^verbatim>\<open>/\<close> on the values of the dictionary.\<close>

fun py_div :: "pyval \<Rightarrow> pyval \<Rightarrow> exn + real" where
  "py_div (PyNum a) (PyNum b) = (if b = 0 then Inl ZeroDivisionError else Inr (a / b))"
| "py_div _ _ = Inl TypeError"

text \<open>Lines 39--42.\<close>

definition ticker_shares :: "info \<Rightarrow> exn + real" where
  "ticker_shares dict =
     (case info_get dict ''sharesOutstanding'' PyNone of
        PyNum n \<Rightarrow>
          if truthy (PyNum n) then Inr n
          else py_div (info_get dict ''marketCap'' (PyNum 0)) (info_get dict ''previousClose'' (PyNum 1))
      | PyNone \<Rightarrow>
          py_div (info_get dict ''marketCap'' (PyNum 0)) (info_get dict ''previousClose'' (PyNum 1)))"

text \<open>
  Lines 38--44, the part of the loop body that can raise: the shares figure and the
  previous close of one ticker.
\<close>

definition init_ticker :: "init_env \<Rightarrow> table \<Rightarrow> string \<Rightarrow> exn + (real \<times> real)" where
  "init_ticker env hist ticker =
     (case info_fetch env ticker of
        Inl e \<Rightarrow> Inl e
      | Inr dict \<Rightarrow>
          (case ticker_shares dict of
             Inl e \<Rightarrow> Inl e
           | Inr shares \<Rightarrow>
               (case close_iloc_m2 hist ticker of
                  Inl e \<Rightarrow> Inl e
                | Inr prev_close_price \<Rightarrow> Inr (shares, prev_close_price))))"

text \<open>
  Lines 36--55. \<^verbatim>\<open>for ticker in TICKERS\<close> reads the list by position, and the
  handler removes from the very list being read: the position advances all the same.
\<close>

function init_loop ::
  "init_env \<Rightarrow> table \<Rightarrow> nat \<Rightarrow> state \<Rightarrow> real \<Rightarrow> init_event list
     \<Rightarrow> state \<times> real \<times> init_event list" where
  "init_loop env hist i s total_base_cap evs =
     (if i < length (tickers s) then
        (case init_ticker env hist (tickers s ! i) of
           Inr (shares, prev_close_price) \<Rightarrow>
             init_loop env hist (Suc i)
               (s\<lparr>shares_outstanding := (shares_outstanding s)(tickers s ! i \<mapsto> shares),
                   prev_close := (prev_close s)(tickers s ! i \<mapsto> prev_close_price),
                   last_price := (last_price s)(tickers s ! i \<mapsto> prev_close_price)\<rparr>)
               (total_base_cap + shares * prev_close_price)
               (evs @ [Initialized (tickers s ! i) prev_close_price])
         | Inl e \<Rightarrow>
             init_loop env hist (Suc i)
               (s\<lparr>tickers := remove1 (tickers s ! i) (tickers s)\<rparr>)
               total_base_cap
               (evs @ [Excluded (tickers s ! i) e]))
      else (s, total_base_cap, evs))"
  by pat_completeness auto
termination
  by (relation "measure (\<lambda>(env, hist, i, s, total, evs). length (tickers s) - i)")
     (auto simp: length_remove1)

text \<open>Lines 25--60.\<close>

definition initialize_index :: "init_env \<Rightarrow> state \<Rightarrow> exn + (state \<times> init_event list)" where
  "initialize_index env s =
     (case hist_fetch env of
        Inl e \<Rightarrow> Inl e
      | Inr hist_data \<Rightarrow>
          if tbl_empty hist_data \<or> length (rows hist_data) < 2
          then Inl (ConnectionError ''Could not download initial historical data. Check connection.'')
          else
            (case init_loop env hist_data 0 s 0 [] of
               (s', total_base_cap, evs) \<Rightarrow>
                 if total_base_cap = 0
                 then Inl (ValueError ''Base market cap is zero. Cannot start index.'')
                 else Inr (s'\<lparr>base_market_cap := total_base_cap\<rparr>, evs)))"

section \<open>The update cycle\<close>

text \<open>
  What the world answers during one call of \<^verbatim>\<open>update(frame)\<close>: the two downloads
  (each may raise) and the clock.
\<close>

record cycle =
  frame :: int
  intraday :: "exn + table"
  daily :: "exn + table"
  now :: string

datatype event =
    Download "string list" string string
  | Print_warning
  | Print_error exn

datatype outcome = Completed | Skipped | Caught exn

text \<open>
  Lines 95--98, the body of the inner \<^verbatim>\<open>try\<close>: the intraday download, and the
  \<^verbatim>\<open>ValueError\<close> the script raises itself when the table is empty.
\<close>

definition try_intraday :: "cycle \<Rightarrow> exn + table" where
  "try_intraday c =
     (case intraday c of
        Inl e \<Rightarrow> Inl e
      | Inr live_data \<Rightarrow>
          if tbl_empty live_data
          then Inl (ValueError ''Live data feed returned empty, likely market closed.'')
          else Inr live_data)"

text \<open>
  Lines 94--102: the inner \<^verbatim>\<open>try\<close> with its handler, which prints a warning on
  the first two frames and downloads the daily bar.
\<close>

definition fetch_live :: "cycle \<Rightarrow> string list \<Rightarrow> (exn + table) \<times> event list" where
  "fetch_live c ts =
     (case try_intraday c of
        Inr live_data \<Rightarrow> (Inr live_data, [Download ts ''2m'' ''1m''])
      | Inl e \<Rightarrow>
          (daily c,
           [Download ts ''2m'' ''1m''] @ (if frame c < 2 then [Print_warning] else [])
             @ [Download ts ''1d'' ''1d'']))"

text \<open>
  Line 108: \<^verbatim>\<open>sum(shares[t] * latest_prices[t] for t in TICKERS if t in latest_prices)\<close>,
  from 0 and from left to right; \<^verbatim>\<open>shares[t]\<close> raises for a missing key.
\<close>

fun cap_sum :: "(string \<rightharpoonup> real) \<Rightarrow> prices \<Rightarrow> string list \<Rightarrow> real \<Rightarrow> exn + real" where
  "cap_sum sh latest [] acc = Inr acc"
| "cap_sum sh latest (t # ts) acc =
     (case latest t of
        None \<Rightarrow> cap_sum sh latest ts acc
      | Some price \<Rightarrow>
          (case sh t of
             None \<Rightarrow> Inl (KeyError t)
           | Some shares \<Rightarrow> cap_sum sh latest ts (acc + shares * price)))"

text \<open>The slice \<^verbatim>\<open>xs[-n:]\<close>.\<close>

definition slice_last :: "nat \<Rightarrow> 'a list \<Rightarrow> 'a list" where
  "slice_last n xs = (if n = 0 then xs else drop (length xs - n) xs)"

text \<open>Lines 111--114.\<close>

definition append_history :: "real \<Rightarrow> string \<Rightarrow> state \<Rightarrow> state" where
  "append_history v stamp s =
     (let ivs = index_values s @ [v]; tss = timestamps s @ [stamp]
      in if length ivs > MAX_DATAPOINTS
         then s\<lparr>index_values := slice_last MAX_DATAPOINTS ivs,
                timestamps := slice_last MAX_DATAPOINTS tss\<rparr>
         else s\<lparr>index_values := ivs, timestamps := tss\<rparr>)"

text \<open>Python's \<^verbatim>\<open>min\<close> and \<^verbatim>\<open>max\<close> of a list, used on lists of two or more values.\<close>

definition list_min :: "real list \<Rightarrow> real" where
  "list_min xs = foldl min (hd xs) (tl xs)"

definition list_max :: "real list \<Rightarrow> real" where
  "list_max xs = foldl max (hd xs) (tl xs)"

text \<open>Lines 116--121.\<close>

definition redraw :: "state \<Rightarrow> state" where
  "redraw s =
     (let ivs = index_values s;
          s1 = s\<lparr>line_data := ([0..<length ivs], ivs),
                  xlim := Some (0, real (max (length ivs - 1) 1))\<rparr>
      in if length ivs > 1
         then (let min_val = list_min ivs; max_val = list_max ivs;
                   padding = (max_val - min_val) * 0.1 + 0.01
               in s1\<lparr>ylim := Some (min_val - padding, max_val + padding)\<rparr>)
         else s1)"

definition daily_change_pct :: "real \<Rightarrow> real \<Rightarrow> pct" where
  "daily_change_pct price pc =
     (if pc \<noteq> 0 then Fin ((price - pc) / pc * 100)
      else if price - pc > 0 then PInf
      else if price - pc < 0 then NInf
      else NaN)"

text \<open>\<^verbatim>\<open>daily_change_pct >= 0\<close>; a comparison with NaN is false.\<close>

fun pct_nonneg :: "pct \<Rightarrow> bool" where
  "pct_nonneg (Fin r) = (r \<ge> 0)"
| "pct_nonneg PInf = True"
| "pct_nonneg NInf = False"
| "pct_nonneg NaN = False"

definition tick_color :: "real \<Rightarrow> real \<Rightarrow> color" where
  "tick_color price lastp =
     (if price > lastp then Green else if price < lastp then Red else Neutral)"

text \<open>
  Lines 125--138, one pass of the sidebar loop. Each dictionary read raises for a
  missing key, and all of them come before the first write of the pass.
\<close>

definition sidebar_ticker :: "prices \<Rightarrow> string \<Rightarrow> state \<Rightarrow> exn + state" where
  "sidebar_ticker latest ticker s =
     (case latest ticker of
        None \<Rightarrow> Inr s
      | Some price \<Rightarrow>
          (case prev_close s ticker of
             None \<Rightarrow> Inl (KeyError ticker)
           | Some pc \<Rightarrow>
               (case last_price s ticker of
                  None \<Rightarrow> Inl (KeyError ticker)
                | Some lastp \<Rightarrow>
                    (case text_artists s ticker of
                       None \<Rightarrow> Inl (KeyError ticker)
                     | Some (ticker_label, price_artist, pct_artist) \<Rightarrow>
                         Inr (s\<lparr>text_artists := (text_artists s)(ticker \<mapsto>
                                   (ticker_label,
                                    \<lparr>a_text = PriceText price, a_color = tick_color price lastp\<rparr>,
                                    \<lparr>a_text = PctText (daily_change_pct price pc),
                                     a_color = (if pct_nonneg (daily_change_pct price pc)
                                                then Green else Red)\<rparr>)),
                                 last_price := (last_price s)(ticker \<mapsto> price)\<rparr>)))))"

text \<open>
  Lines 124--138. A pass that raises leaves the loop; what the earlier passes wrote
  stays written.
\<close>

fun sidebar_loop :: "prices \<Rightarrow> string list \<Rightarrow> state \<Rightarrow> exn option \<times> state" where
  "sidebar_loop latest [] s = (None, s)"
| "sidebar_loop latest (t # ts) s =
     (case sidebar_ticker latest t s of
        Inl e \<Rightarrow> (Some e, s)
      | Inr s' \<Rightarrow> sidebar_loop latest ts s')"

text \<open>
  Lines 90--141. The outer handler catches every exception and prints it, so the
  function always returns a state; the outcome says how the cycle ended. On numpy floats
  line 109 raises nothing; with real numbers a zero \<open>base_market_cap\<close> (which
  \<open>initialize_index\<close> never leaves behind) is made a \<open>ZeroDivisionError\<close> rather
  than a quotient by zero.
\<close>

definition update :: "cycle \<Rightarrow> state \<Rightarrow> state \<times> outcome \<times> event list" where
  "update c s =
     (case fetch_live c (tickers s) of
        (Inl e, evs) \<Rightarrow> (s, Caught e, evs @ [Print_error e])
      | (Inr live_data, evs) \<Rightarrow>
          if tbl_empty live_data then (s, Skipped, evs)
          else
            (case cap_sum (shares_outstanding s) (last_row live_data) (tickers s) 0 of
               Inl e \<Rightarrow> (s, Caught e, evs @ [Print_error e])
             | Inr current_total_cap \<Rightarrow>
                 if base_market_cap s = 0
                 then (s, Caught ZeroDivisionError, evs @ [Print_error ZeroDivisionError])
                 else
                   (let current_index_value =
                          INDEX_BASE_VALUE * (current_total_cap / base_market_cap s);
                        s1 = redraw (append_history current_index_value (now c) s)
                    in case sidebar_loop (last_row live_data) (tickers s1) s1 of
                         (None, s2) \<Rightarrow> (s2, Completed, evs)
                       | (Some e, s2) \<Rightarrow> (s2, Caught e, evs @ [Print_error e]))))"

text \<open>The timer calls \<open>update\<close> once per cycle, each call on the state the last one left.\<close>

fun run :: "cycle list \<Rightarrow> state \<Rightarrow> state" where
  "run [] s = s"
| "run (c # cs) s = run cs (fst (update c s))"

text \<open>
  Lines 144--153: the module is loaded, the initializer runs, and only if it returns
  does the timer start.
\<close>

definition startup :: "init_env \<Rightarrow> string list \<Rightarrow> exn + (state \<times> init_event list)" where
  "startup env ts = initialize_index env (module_state ts)"

section \<open>Notions used to state the properties\<close>

text \<open>
  The prices an update cycle works with (line 106), when the downloads yield any: the
  last row of the intraday table, or of the daily one when the intraday download raises or
  is empty.
\<close>

definition fetched :: "cycle \<Rightarrow> prices option" where
  "fetched c =
     (case fst (fetch_live c []) of
        Inl e \<Rightarrow> None
      | Inr live_data \<Rightarrow> if tbl_empty live_data then None else Some (last_row live_data))"

text \<open>
  What holds of the state whenever the timer runs: the three per-ticker dictionaries
  have the same keys, every basket ticker has its sidebar row, the two histories go in
  step and are bounded, and the base is not zero.
\<close>

definition consistent :: "state \<Rightarrow> bool" where
  "consistent s \<longleftrightarrow>
     dom (prev_close s) = dom (shares_outstanding s) \<and>
     dom (last_price s) = dom (shares_outstanding s) \<and>
     set (tickers s) \<subseteq> dom (text_artists s) \<and>
     length (index_values s) = length (timestamps s) \<and>
     length (index_values s) \<le> MAX_DATAPOINTS \<and>
     base_market_cap s \<noteq> 0"



section \<open>Worked examples\<close>

text \<open>
  A basket of two: shares A 10 and B 5, previous closes 100 and 200, then a live tick
  with A at 110 and B at 200.
\<close>

definition ex_hist :: table where
  "ex_hist = \<lparr>columns = [''A'', ''B''],
              rows = [(\<lambda>t. if t = ''A'' then 100 else 200), (\<lambda>t. if t = ''A'' then 104 else 199)]\<rparr>"

definition ex_env :: init_env where
  "ex_env = \<lparr>hist_fetch = Inr ex_hist,
             info_fetch = (\<lambda>t. if t = ''A'' then Inr [''sharesOutstanding'' \<mapsto> PyNum 10]
                               else Inr [''sharesOutstanding'' \<mapsto> PyNum 5])\<rparr>"

definition ex_state :: state where
  "ex_state =
     \<lparr>tickers = [''A'', ''B''],
      shares_outstanding = [''A'' \<mapsto> 10, ''B'' \<mapsto> 5],
      base_market_cap = 2000,
      prev_close = [''A'' \<mapsto> 100, ''B'' \<mapsto> 200],
      last_price = [''A'' \<mapsto> 100, ''B'' \<mapsto> 200],
      text_artists = [''A'' \<mapsto> sidebar_row ''A'', ''B'' \<mapsto> sidebar_row ''B''],
      index_values = [],
      timestamps = [],
      line_data = ([], []),
      xlim = None,
      ylim = None\<rparr>"

definition ex_tick :: cycle where
  "ex_tick = \<lparr>frame = 0,
              intraday = Inr \<lparr>columns = [''A'', ''B''],
                              rows = [(\<lambda>t. if t = ''A'' then 110 else 200)]\<rparr>,
              daily = Inl (ProviderError ''unused''),
              now = ''09:30:15''\<rparr>"

definition ex_latest :: prices where
  "ex_latest = [''A'' \<mapsto> 110, ''B'' \<mapsto> 200]"

text \<open>
  A cycle with the market closed and nothing to show (both downloads come back empty),
  and one with the provider unreachable (both downloads raise).
\<close>

definition ex_closed :: cycle where
  "ex_closed = \<lparr>frame = 0,
                intraday = Inr \<lparr>columns = [], rows = []\<rparr>,
                daily = Inr \<lparr>columns = [], rows = []\<rparr>,
                now = ''20:00:00''\<rparr>"


text \<open>
  A basket of three in which the provider has nothing on A: the loop removes A, never
  reads B, and stores C, whose share count is missing and is estimated from a market cap
  of 3000 and a previous close of 30.
\<close>

definition drop_hist :: table where
  "drop_hist = \<lparr>columns = [''A'', ''B'', ''C''],
                rows = [(\<lambda>t. if t = ''A'' then 100 else if t = ''B'' then 200 else 30),
                        (\<lambda>t. if t = ''A'' then 101 else if t = ''B'' then 202 else 31)]\<rparr>"

definition drop_env :: init_env where
  "drop_env = \<lparr>hist_fetch = Inr drop_hist,
               info_fetch = (\<lambda>t. if t = ''A'' then Inl (ProviderError ''no data'')
                                 else if t = ''B'' then Inr [''sharesOutstanding'' \<mapsto> PyNum 5]
                                 else Inr [''marketCap'' \<mapsto> PyNum 3000,
                                           ''previousClose'' \<mapsto> PyNum 30])\<rparr>"

definition drop_state :: state where
  "drop_state =
     \<lparr>tickers = [''B'', ''C''],
      shares_outstanding = [''C'' \<mapsto> 100],
      base_market_cap = 3000,
      prev_close = [''C'' \<mapsto> 30],
      last_price = [''C'' \<mapsto> 30],
      text_artists = [''A'' \<mapsto> sidebar_row ''A'', ''B'' \<mapsto> sidebar_row ''B'',
                      ''C'' \<mapsto> sidebar_row ''C''],
      index_values = [],
      timestamps = [],
      line_data = ([], []),
      xlim = None,
      ylim = None\<rparr>"

definition drop_events :: "init_event list" where
  "drop_events = [Excluded ''A'' (ProviderError ''no data''), Initialized ''C'' 30]"

text \<open>A tick that quotes B alone, and one that quotes A and C but not B.\<close>

definition drop_tick :: cycle where
  "drop_tick = \<lparr>frame = 3,
                intraday = Inr \<lparr>columns = [''B''], rows = [(\<lambda>t. 201)]\<rparr>,
                daily = Inl (ProviderError ''unused''),
                now = ''10:15:00''\<rparr>"

definition drop_quote :: cycle where
  "drop_quote = \<lparr>frame = 4,
                 intraday = Inr \<lparr>columns = [''A'', ''C''],
                                 rows = [(\<lambda>t. if t = ''A'' then 50 else 33)]\<rparr>,
                 daily = Inl (ProviderError ''unused''),
                 now = ''10:15:15''\<rparr>"


text \<open>The first tick of the basket of two, once more: a flat history of two values.\<close>

definition ex_after :: state where
  "ex_after = fst (update ex_tick ex_state)"


section \<open>Properties\<close>

text \<open>The configured basket names no ticker twice.\<close>

lemma TICKERS_distinct: "distinct TICKERS"
  by (simp add: TICKERS_def)

subsection \<open>The market-cap sum\<close>

lemma cap_sum_Inr:
  "\<forall>t\<in>set ts. latest t \<noteq> None \<longrightarrow> sh t \<noteq> None \<Longrightarrow>
   cap_sum sh latest ts acc =
     Inr (acc + (\<Sum>t\<leftarrow>filter (\<lambda>t. latest t \<noteq> None) ts. the (sh t) * the (latest t)))"
  by (induction ts arbitrary: acc) (auto simp: algebra_simps)

lemma cap_sum_Inr_iff:
  "(\<exists>r. cap_sum sh latest ts acc = Inr r) \<longleftrightarrow> (\<forall>t\<in>set ts. latest t \<noteq> None \<longrightarrow> sh t \<noteq> None)"
  by (induction ts arbitrary: acc) (auto split: option.splits)

lemma cap_sum_Inl:
  "cap_sum sh latest ts acc = Inl e \<Longrightarrow>
   \<exists>k\<in>set ts. e = KeyError k \<and> latest k \<noteq> None \<and> sh k = None"
  by (induction ts arbitrary: acc) (auto split: option.splits)

lemma cap_sum_no_term:
  "a \<notin> set ts \<Longrightarrow> cap_sum (sh(a := x)) (latest(a := y)) ts acc = cap_sum sh latest ts acc"
  by (induction ts arbitrary: acc) (auto split: option.splits)


subsection \<open>The sidebar loop\<close>

lemma sidebar_ticker_frame:
  assumes "sidebar_ticker latest t s = Inr s'"
  shows "tickers s' = tickers s" "shares_outstanding s' = shares_outstanding s"
    "base_market_cap s' = base_market_cap s" "prev_close s' = prev_close s"
    "index_values s' = index_values s" "timestamps s' = timestamps s"
    "line_data s' = line_data s" "xlim s' = xlim s" "ylim s' = ylim s"
    "dom (last_price s') = dom (last_price s)" "dom (text_artists s') = dom (text_artists s)"
    "u \<noteq> t \<Longrightarrow> last_price s' u = last_price s u"
    "u \<noteq> t \<Longrightarrow> text_artists s' u = text_artists s u"
    "latest u = None \<Longrightarrow> last_price s' u = last_price s u"
    "latest u = None \<Longrightarrow> text_artists s' u = text_artists s u"
  using assms
  by (auto simp: sidebar_ticker_def split: option.splits prod.splits if_splits)

lemma sidebar_loop_frame:
  assumes "sidebar_loop latest ts s = (r, s')"
  shows "tickers s' = tickers s \<and> shares_outstanding s' = shares_outstanding s \<and>
    base_market_cap s' = base_market_cap s \<and> prev_close s' = prev_close s \<and>
    index_values s' = index_values s \<and> timestamps s' = timestamps s \<and>
    line_data s' = line_data s \<and> xlim s' = xlim s \<and> ylim s' = ylim s \<and>
    dom (last_price s') = dom (last_price s) \<and> dom (text_artists s') = dom (text_artists s)"
  using assms
proof (induction ts arbitrary: s)
  case Nil
  then show ?case by simp
next
  case (Cons t ts)
  show ?case
  proof (cases "sidebar_ticker latest t s")
    case (Inl e)
    with Cons.prems show ?thesis by simp
  next
    case (Inr s1)
    with Cons.prems have "sidebar_loop latest ts s1 = (r, s')" by simp
    from Cons.IH[OF this] sidebar_ticker_frame(1-11)[OF Inr] show ?thesis by simp
  qed
qed

lemma sidebar_loop_untouched:
  assumes "sidebar_loop latest ts s = (r, s')" and "latest u = None \<or> u \<notin> set ts"
  shows "last_price s' u = last_price s u \<and> text_artists s' u = text_artists s u"
  using assms
proof (induction ts arbitrary: s)
  case Nil
  then show ?case by simp
next
  case (Cons t ts)
  show ?case
  proof (cases "sidebar_ticker latest t s")
    case (Inl e)
    with Cons.prems show ?thesis by simp
  next
    case (Inr s1)
    with Cons.prems have l: "sidebar_loop latest ts s1 = (r, s')" by simp
    from Cons.prems(2) have u: "latest u = None \<or> u \<notin> set ts" by auto
    from Cons.prems(2) have "latest u = None \<or> u \<noteq> t" by auto
    then have "last_price s1 u = last_price s u \<and> text_artists s1 u = text_artists s u"
      using sidebar_ticker_frame(12-15)[OF Inr] by blast
    with Cons.IH[OF l u] show ?thesis by simp
  qed
qed

lemma sidebar_loop_completes:
  assumes "\<forall>t\<in>set ts. latest t \<noteq> None \<longrightarrow>
             t \<in> dom (prev_close s) \<and> t \<in> dom (last_price s) \<and> t \<in> dom (text_artists s)"
  shows "fst (sidebar_loop latest ts s) = None"
  using assms
proof (induction ts arbitrary: s)
  case Nil
  then show ?case by simp
next
  case (Cons t ts)
  from Cons.prems obtain s1 where s1: "sidebar_ticker latest t s = Inr s1"
    by (cases "latest t") (auto simp: sidebar_ticker_def split: option.splits prod.splits)
  have "\<forall>t\<in>set ts. latest t \<noteq> None \<longrightarrow>
       t \<in> dom (prev_close s1) \<and> t \<in> dom (last_price s1) \<and> t \<in> dom (text_artists s1)"
    using Cons.prems sidebar_ticker_frame(4,10,11)[OF s1] by simp
  from Cons.IH[OF this] s1 show ?case by simp
qed

subsection \<open>History and chart\<close>

lemma append_history_frame:
  "tickers (append_history v st s) = tickers s"
  "shares_outstanding (append_history v st s) = shares_outstanding s"
  "base_market_cap (append_history v st s) = base_market_cap s"
  "prev_close (append_history v st s) = prev_close s"
  "last_price (append_history v st s) = last_price s"
  "text_artists (append_history v st s) = text_artists s"
  "xlim (append_history v st s) = xlim s"
  "ylim (append_history v st s) = ylim s"
  by (simp_all add: append_history_def Let_def)

lemma append_history_values:
  "index_values (append_history v st s) =
     (if length (index_values s) < MAX_DATAPOINTS then index_values s @ [v]
      else slice_last MAX_DATAPOINTS (index_values s @ [v]))"
  "timestamps (append_history v st s) =
     (if length (index_values s) < MAX_DATAPOINTS then timestamps s @ [st]
      else slice_last MAX_DATAPOINTS (timestamps s @ [st]))"
  by (auto simp: append_history_def Let_def)

lemma slice_last_full:
  "length xs = n \<Longrightarrow> 0 < n \<Longrightarrow> slice_last n (xs @ [x]) = tl xs @ [x]"
  by (cases xs) (auto simp: slice_last_def)

lemma MAX_DATAPOINTS_pos: "0 < MAX_DATAPOINTS"
  by (simp add: MAX_DATAPOINTS_def)

lemma append_history_step:
  assumes "length (index_values s) = length (timestamps s)"
    and "length (index_values s) \<le> MAX_DATAPOINTS"
  shows "(length (index_values s) < MAX_DATAPOINTS \<and>
          index_values (append_history v st s) = index_values s @ [v] \<and>
          timestamps (append_history v st s) = timestamps s @ [st]) \<or>
         (length (index_values s) = MAX_DATAPOINTS \<and>
          index_values (append_history v st s) = tl (index_values s) @ [v] \<and>
          timestamps (append_history v st s) = tl (timestamps s) @ [st])"
proof (cases "length (index_values s) < MAX_DATAPOINTS")
  case True
  with assms show ?thesis by (simp add: append_history_values)
next
  case False
  with assms have full: "length (index_values s) = MAX_DATAPOINTS"
    "length (timestamps s) = MAX_DATAPOINTS" by simp_all
  then show ?thesis
    using MAX_DATAPOINTS_pos by (simp add: append_history_values slice_last_full)
qed

lemma append_history_lengths:
  assumes "length (index_values s) = length (timestamps s)"
    and "length (index_values s) \<le> MAX_DATAPOINTS"
  shows "length (index_values (append_history v st s)) = length (timestamps (append_history v st s))"
    and "length (index_values (append_history v st s)) \<le> MAX_DATAPOINTS"
    and "index_values (append_history v st s) \<noteq> []"
    and "last (index_values (append_history v st s)) = v"
  using append_history_step[OF assms, of v st] MAX_DATAPOINTS_pos assms
  by auto

lemma redraw_frame:
  "tickers (redraw s) = tickers s"
  "shares_outstanding (redraw s) = shares_outstanding s"
  "base_market_cap (redraw s) = base_market_cap s"
  "prev_close (redraw s) = prev_close s"
  "last_price (redraw s) = last_price s"
  "text_artists (redraw s) = text_artists s"
  "index_values (redraw s) = index_values s"
  "timestamps (redraw s) = timestamps s"
  by (simp_all add: redraw_def Let_def)

lemma foldl_min_Min: "foldl min (x::real) xs = Min (insert x (set xs))"
proof (induction xs arbitrary: x)
  case Nil
  then show ?case by simp
next
  case (Cons y ys)
  have "Min (insert (min x y) (set ys)) = Min (insert x (insert y (set ys)))"
    by (cases "set ys = {}") (auto simp: min.assoc)
  with Cons show ?case by simp
qed

lemma foldl_max_Max: "foldl max (x::real) xs = Max (insert x (set xs))"
proof (induction xs arbitrary: x)
  case Nil
  then show ?case by simp
next
  case (Cons y ys)
  have "Max (insert (max x y) (set ys)) = Max (insert x (insert y (set ys)))"
    by (cases "set ys = {}") (auto simp: max.assoc)
  with Cons show ?case by simp
qed

lemma list_min_Min: "xs \<noteq> [] \<Longrightarrow> list_min xs = Min (set xs)"
  by (cases xs) (simp_all add: list_min_def foldl_min_Min)

lemma list_max_Max: "xs \<noteq> [] \<Longrightarrow> list_max xs = Max (set xs)"
  by (cases xs) (simp_all add: list_max_def foldl_max_Max)

lemma redraw_xlim: "xlim (redraw s) = Some (0, real (max (length (index_values s) - 1) 1))"
  by (simp add: redraw_def Let_def)

lemma redraw_ylim:
  "ylim (redraw s) =
     (if length (index_values s) > 1
      then Some (Min (set (index_values s))
                   - ((Max (set (index_values s)) - Min (set (index_values s))) * 0.1 + 0.01),
                 Max (set (index_values s))
                   + ((Max (set (index_values s)) - Min (set (index_values s))) * 0.1 + 0.01))
      else ylim s)"
proof (cases "length (index_values s) > 1")
  case True
  then have "index_values s \<noteq> []" by auto
  with True show ?thesis
    by (simp add: redraw_def Let_def list_min_Min list_max_Max)
next
  case False
  then show ?thesis by (simp add: redraw_def Let_def)
qed

subsection \<open>One update cycle\<close>

lemma fst_fetch_live: "fst (fetch_live c ts) = fst (fetch_live c [])"
  by (simp add: fetch_live_def try_intraday_def split: sum.splits)

lemma snd_fetch_live:
  "snd (fetch_live c ts) =
     (if (\<exists>t. intraday c = Inr t \<and> \<not> tbl_empty t) then [Download ts ''2m'' ''1m'']
      else [Download ts ''2m'' ''1m''] @ (if frame c < 2 then [Print_warning] else [])
             @ [Download ts ''1d'' ''1d''])"
  by (auto simp: fetch_live_def try_intraday_def split: sum.splits)

lemma fetch_live_fallback:
  "\<not> (\<exists>t. intraday c = Inr t \<and> \<not> tbl_empty t) \<Longrightarrow> fst (fetch_live c ts) = daily c"
  by (auto simp: fetch_live_def try_intraday_def split: sum.splits)

lemma update_no_prices:
  assumes "fetched c = None"
  shows "fst (update c s) = s"
    and "fst (snd (update c s)) = Skipped \<or> (\<exists>e. fst (snd (update c s)) = Caught e)"
proof -
  obtain r evs where f: "fetch_live c (tickers s) = (r, evs)" by (cases "fetch_live c (tickers s)")
  then have "fst (fetch_live c []) = r" using fst_fetch_live[of c "tickers s"] by simp
  with assms have "(\<exists>e. r = Inl e) \<or> (\<exists>t. r = Inr t \<and> tbl_empty t)"
    by (auto simp: fetched_def split: sum.splits if_splits)
  with f show "fst (update c s) = s"
    and "fst (snd (update c s)) = Skipped \<or> (\<exists>e. fst (snd (update c s)) = Caught e)"
    by (auto simp: update_def)
qed

text \<open>With prices fetched, the cycle is the computation of lines 108--138.\<close>

lemma update_with_prices:
  assumes "fetched c = Some latest"
  shows "update c s =
     (case cap_sum (shares_outstanding s) latest (tickers s) 0 of
        Inl e \<Rightarrow> (s, Caught e, snd (fetch_live c (tickers s)) @ [Print_error e])
      | Inr cap \<Rightarrow>
          if base_market_cap s = 0
          then (s, Caught ZeroDivisionError,
                snd (fetch_live c (tickers s)) @ [Print_error ZeroDivisionError])
          else
            (case sidebar_loop latest (tickers s)
                    (redraw (append_history (INDEX_BASE_VALUE * (cap / base_market_cap s)) (now c) s)) of
               (None, s2) \<Rightarrow> (s2, Completed, snd (fetch_live c (tickers s)))
             | (Some e, s2) \<Rightarrow> (s2, Caught e, snd (fetch_live c (tickers s)) @ [Print_error e])))"
proof -
  obtain r evs where f: "fetch_live c (tickers s) = (r, evs)" by (cases "fetch_live c (tickers s)")
  then have "fst (fetch_live c []) = r" using fst_fetch_live[of c "tickers s"] by simp
  with assms obtain t where "r = Inr t" "\<not> tbl_empty t" "latest = last_row t"
    by (auto simp: fetched_def split: sum.splits if_splits)
  note t = this
  from f have e: "snd (fetch_live c (tickers s)) = evs" by simp
  show ?thesis unfolding e using f t
    by (auto simp: update_def Let_def redraw_frame append_history_frame split: sum.splits)
qed

lemma update_frame:
  "tickers (fst (update c s)) = tickers s \<and>
   shares_outstanding (fst (update c s)) = shares_outstanding s \<and>
   base_market_cap (fst (update c s)) = base_market_cap s \<and>
   prev_close (fst (update c s)) = prev_close s \<and>
   dom (last_price (fst (update c s))) = dom (last_price s) \<and>
   dom (text_artists (fst (update c s))) = dom (text_artists s)"
proof (cases "fetched c")
  case None
  then show ?thesis by (simp add: update_no_prices(1))
next
  case (Some latest)
  show ?thesis
  proof (cases "cap_sum (shares_outstanding s) latest (tickers s) 0")
    case (Inl e)
    then show ?thesis by (simp add: update_with_prices[OF Some])
  next
    case (Inr cap)
    show ?thesis
    proof (cases "base_market_cap s = 0")
      case True
      with Inr show ?thesis by (simp add: update_with_prices[OF Some])
    next
      case False
      let ?s1 = "redraw (append_history (INDEX_BASE_VALUE * (cap / base_market_cap s)) (now c) s)"
      obtain r s2 where l: "sidebar_loop latest (tickers s) ?s1 = (r, s2)"
        by (cases "sidebar_loop latest (tickers s) ?s1")
      with Inr False have "fst (update c s) = s2"
        by (cases r) (simp_all add: update_with_prices[OF Some])
      with sidebar_loop_frame[OF l] show ?thesis
        by (simp add: redraw_frame append_history_frame)
    qed
  qed
qed

text \<open>
  In a consistent state a cycle whose market-cap sum goes through runs to its end: the
  sidebar loop finds every key it reads.
\<close>

lemma update_completes:
  assumes "consistent s" and "fetched c = Some latest"
    and "cap_sum (shares_outstanding s) latest (tickers s) 0 = Inr cap"
  shows "\<exists>s2. update c s = (s2, Completed, snd (fetch_live c (tickers s))) \<and>
     sidebar_loop latest (tickers s)
       (redraw (append_history (INDEX_BASE_VALUE * (cap / base_market_cap s)) (now c) s))
       = (None, s2)"
proof -
  let ?s1 = "redraw (append_history (INDEX_BASE_VALUE * (cap / base_market_cap s)) (now c) s)"
  from assms(3) have sh: "\<forall>t\<in>set (tickers s). latest t \<noteq> None \<longrightarrow> shares_outstanding s t \<noteq> None"
    using cap_sum_Inr_iff[of "shares_outstanding s" latest "tickers s" 0] by auto
  have "\<forall>t\<in>set (tickers s). latest t \<noteq> None \<longrightarrow>
          t \<in> dom (prev_close ?s1) \<and> t \<in> dom (last_price ?s1) \<and> t \<in> dom (text_artists ?s1)"
    using sh assms(1) by (auto simp: consistent_def redraw_frame append_history_frame)
  from sidebar_loop_completes[OF this] obtain s2 where l: "sidebar_loop latest (tickers s) ?s1 = (None, s2)"
    by (cases "sidebar_loop latest (tickers s) ?s1") auto
  from assms(1) have "base_market_cap s \<noteq> 0" by (simp add: consistent_def)
  with l assms(3) show ?thesis by (simp add: update_with_prices[OF assms(2)])
qed


lemma update_consistent:
  assumes "consistent s"
  shows "consistent (fst (update c s))"
proof (cases "fetched c")
  case None
  with assms show ?thesis by (simp add: update_no_prices(1))
next
  case (Some latest)
  show ?thesis
  proof (cases "cap_sum (shares_outstanding s) latest (tickers s) 0")
    case (Inl e)
    with assms show ?thesis by (simp add: update_with_prices[OF Some])
  next
    case (Inr cap)
    let ?h = "append_history (INDEX_BASE_VALUE * (cap / base_market_cap s)) (now c) s"
    from update_completes[OF assms Some Inr] obtain s2 where
      u: "fst (update c s) = s2" and l: "sidebar_loop latest (tickers s) (redraw ?h) = (None, s2)"
      by auto
    from assms have len: "length (index_values s) = length (timestamps s)"
      "length (index_values s) \<le> MAX_DATAPOINTS" by (simp_all add: consistent_def)
    have "length (index_values s2) = length (timestamps s2)"
      "length (index_values s2) \<le> MAX_DATAPOINTS"
      using sidebar_loop_frame[OF l] append_history_lengths(1,2)[OF len]
      by (simp_all add: redraw_frame)
    moreover have "dom (prev_close s2) = dom (shares_outstanding s2)"
      "dom (last_price s2) = dom (shares_outstanding s2)"
      "set (tickers s2) \<subseteq> dom (text_artists s2)" "base_market_cap s2 \<noteq> 0"
      using update_frame[of c s] u assms by (simp_all add: consistent_def)
    ultimately show ?thesis using u by (simp add: consistent_def)
  qed
qed

lemma run_consistent: "consistent s \<Longrightarrow> consistent (run cs s)"
  by (induction cs arbitrary: s) (simp_all add: update_consistent)

lemma run_frame:
  "tickers (run cs s) = tickers s \<and>
   shares_outstanding (run cs s) = shares_outstanding s \<and>
   base_market_cap (run cs s) = base_market_cap s \<and>
   prev_close (run cs s) = prev_close s \<and>
   dom (last_price (run cs s)) = dom (last_price s) \<and>
   dom (text_artists (run cs s)) = dom (text_artists s)"
proof (induction cs arbitrary: s)
  case Nil
  then show ?case by simp
next
  case (Cons c cs)
  from Cons[of "fst (update c s)"] update_frame[of c s] show ?case by simp
qed

subsection \<open>The initializer's loop\<close>

text \<open>
  A property that holds when the loop starts and that each pass keeps, whether the pass
  stores the ticker or removes it, holds when the loop ends.
\<close>

lemma init_loop_rule:
  assumes "I i s tot evs"
    and "\<And>i s tot evs sh pc.
           \<lbrakk>I i s tot evs; i < length (tickers s);
            init_ticker env hist (tickers s ! i) = Inr (sh, pc)\<rbrakk>
           \<Longrightarrow> I (Suc i)
                 (s\<lparr>shares_outstanding := (shares_outstanding s)(tickers s ! i \<mapsto> sh),
                     prev_close := (prev_close s)(tickers s ! i \<mapsto> pc),
                     last_price := (last_price s)(tickers s ! i \<mapsto> pc)\<rparr>)
                 (tot + sh * pc) (evs @ [Initialized (tickers s ! i) pc])"
    and "\<And>i s tot evs e.
           \<lbrakk>I i s tot evs; i < length (tickers s);
            init_ticker env hist (tickers s ! i) = Inl e\<rbrakk>
           \<Longrightarrow> I (Suc i) (s\<lparr>tickers := remove1 (tickers s ! i) (tickers s)\<rparr>) tot
                 (evs @ [Excluded (tickers s ! i) e])"
    and "init_loop env hist i s tot evs = (s', tot', evs')"
  shows "\<exists>i'. I i' s' tot' evs' \<and> length (tickers s') \<le> i'"
  using assms
proof (induction env hist i s tot evs rule: init_loop.induct)
  case (1 env hist i s tot evs)
  note ok = "1.prems"(2) and fail = "1.prems"(3)
  show ?case
  proof (cases "i < length (tickers s)")
    case False
    with "1.prems"(1,4) show ?thesis by (auto simp: not_less)
  next
    case True
    show ?thesis
    proof (cases "init_ticker env hist (tickers s ! i)")
      case (Inl e)
      from "1.prems"(4) True Inl have
        "init_loop env hist (Suc i) (s\<lparr>tickers := remove1 (tickers s ! i) (tickers s)\<rparr>) tot
           (evs @ [Excluded (tickers s ! i) e]) = (s', tot', evs')"
        by simp
      from "1.IH"(1)[OF True Inl fail[OF "1.prems"(1) True Inl] ok fail this]
      show ?thesis .
    next
      case (Inr p)
      obtain sh pc where p: "p = (sh, pc)" by (cases p)
      from "1.prems"(4) True Inr p have
        "init_loop env hist (Suc i)
           (s\<lparr>shares_outstanding := (shares_outstanding s)(tickers s ! i \<mapsto> sh),
               prev_close := (prev_close s)(tickers s ! i \<mapsto> pc),
               last_price := (last_price s)(tickers s ! i \<mapsto> pc)\<rparr>)
           (tot + sh * pc) (evs @ [Initialized (tickers s ! i) pc]) = (s', tot', evs')"
        by simp
      from "1.IH"(2)[OF True Inr p[symmetric] ok[OF "1.prems"(1) True Inr[unfolded p]] ok fail this]
      show ?thesis .
    qed
  qed
qed


text \<open>The basket after a removal at the position being read.\<close>

lemma remove1_nth:
  assumes "distinct xs" and "i < length xs"
  shows "remove1 (xs ! i) xs = take i xs @ drop (Suc i) xs"
proof -
  have xs: "xs = take i xs @ xs ! i # drop (Suc i) xs"
    using assms(2) by (rule id_take_nth_drop)
  with assms(1) have "distinct (take i xs @ xs ! i # drop (Suc i) xs)" by simp
  then have "xs ! i \<notin> set (take i xs)" by auto
  then have "remove1 (xs ! i) (take i xs @ xs ! i # drop (Suc i) xs) = take i xs @ drop (Suc i) xs"
    by (simp add: remove1_append)
  with xs show ?thesis by simp
qed

lemma drop_Suc_remove1_nth:
  assumes "distinct xs" and "i < length xs"
  shows "drop (Suc i) (remove1 (xs ! i) xs) = drop (Suc (Suc i)) xs"
proof -
  have "length (take i xs) = i" using assms(2) by simp
  then have "drop (Suc i) (take i xs @ drop (Suc i) xs) = drop 1 (drop (Suc i) xs)"
    by simp
  then show ?thesis by (simp add: remove1_nth[OF assms])
qed

lemma take_Suc_remove1_nth:
  assumes "distinct xs" and "i < length xs"
  shows "take (Suc i) (remove1 (xs ! i) xs) = take i xs @ take 1 (drop (Suc i) xs)"
proof -
  have "length (take i xs) = i" using assms(2) by simp
  then have "take (Suc i) (take i xs @ drop (Suc i) xs) = take i xs @ take 1 (drop (Suc i) xs)"
    by simp
  then show ?thesis by (simp add: remove1_nth[OF assms])
qed

lemma nth_notin_drop_Suc:
  assumes "distinct xs" and "i < length xs"
  shows "xs ! i \<notin> set (drop (Suc i) xs)"
proof -
  have "xs = take i xs @ xs ! i # drop (Suc i) xs"
    using assms(2) by (rule id_take_nth_drop)
  with assms(1) have "distinct (take i xs @ xs ! i # drop (Suc i) xs)" by simp
  then show ?thesis by auto
qed

lemma nth_notin_take:
  assumes "distinct xs" and "i < length xs"
  shows "xs ! i \<notin> set (take i xs)"
proof -
  have "xs = take i xs @ xs ! i # drop (Suc i) xs"
    using assms(2) by (rule id_take_nth_drop)
  with assms(1) have "distinct (take i xs @ xs ! i # drop (Suc i) xs)" by simp
  then show ?thesis by auto
qed

text \<open>The loop writes the basket and the three per-ticker dictionaries, nothing else.\<close>

lemma init_loop_frame:
  assumes "init_loop env hist i s tot evs = (s', tot', evs')"
  shows "text_artists s' = text_artists s \<and> index_values s' = index_values s \<and>
    timestamps s' = timestamps s \<and> line_data s' = line_data s \<and>
    xlim s' = xlim s \<and> ylim s' = ylim s \<and> base_market_cap s' = base_market_cap s"
proof -
  let ?I = "\<lambda>(i::nat) (s1::state) (tot::real) (evs::init_event list).
     text_artists s1 = text_artists s \<and> index_values s1 = index_values s \<and>
     timestamps s1 = timestamps s \<and> line_data s1 = line_data s \<and>
     xlim s1 = xlim s \<and> ylim s1 = ylim s \<and> base_market_cap s1 = base_market_cap s"
  have "\<exists>i'. ?I i' s' tot' evs' \<and> length (tickers s') \<le> i'"
    by (rule init_loop_rule[where I = ?I, OF _ _ _ assms]) simp_all
  then show ?thesis by simp
qed

text \<open>
  On a basket without repetitions, a ticker the loop reports as excluded is no longer in
  the basket when the loop ends.
\<close>

lemma init_loop_basket:
  assumes "init_loop env hist i s tot evs = (s', tot', evs')" and "distinct (tickers s)"
  shows "distinct (tickers s') \<and> set (tickers s') \<subseteq> set (tickers s) \<and>
    (\<forall>a e. Excluded a e \<in> set evs' \<longrightarrow> Excluded a e \<in> set evs \<or> a \<notin> set (tickers s'))"
proof -
  let ?I = "\<lambda>(i::nat) (s1::state) (tot::real) evs1.
     distinct (tickers s1) \<and> set (tickers s1) \<subseteq> set (tickers s) \<and>
     (\<forall>a e. Excluded a e \<in> set evs1 \<longrightarrow> Excluded a e \<in> set evs \<or> a \<notin> set (tickers s1))"
  have "\<exists>i'. ?I i' s' tot' evs' \<and> length (tickers s') \<le> i'"
  proof (rule init_loop_rule[where I = ?I, OF _ _ _ assms(1)])
    show "?I i s tot evs" using assms(2) by simp
  next
    fix i s1 tot evs1 sh pc
    assume "?I i s1 tot evs1"
    then show "?I (Suc i)
        (s1\<lparr>shares_outstanding := (shares_outstanding s1)(tickers s1 ! i \<mapsto> sh),
            prev_close := (prev_close s1)(tickers s1 ! i \<mapsto> pc),
            last_price := (last_price s1)(tickers s1 ! i \<mapsto> pc)\<rparr>)
        (tot + sh * pc) (evs1 @ [Initialized (tickers s1 ! i) pc])"
      by simp
  next
    fix i s1 tot evs1 e
    assume I: "?I i s1 tot evs1"
    then have "set (remove1 (tickers s1 ! i) (tickers s1)) = set (tickers s1) - {tickers s1 ! i}"
      by simp
    with I show "?I (Suc i) (s1\<lparr>tickers := remove1 (tickers s1 ! i) (tickers s1)\<rparr>) tot
        (evs1 @ [Excluded (tickers s1 ! i) e])"
      by auto
  qed
  then show ?thesis by simp
qed

text \<open>
  Every entry of the three dictionaries that the loop writes comes from a pass that
  stored it: the shares figure and the previous close of that very ticker.
\<close>

lemma init_loop_entries:
  assumes "init_loop env hist i s tot evs = (s', tot', evs')"
    and "dom (prev_close s) = dom (shares_outstanding s)"
    and "dom (last_price s) = dom (shares_outstanding s)"
  shows "dom (prev_close s') = dom (shares_outstanding s') \<and>
    dom (last_price s') = dom (shares_outstanding s') \<and>
    (\<forall>t v. shares_outstanding s' t = Some v \<longrightarrow>
       shares_outstanding s t = Some v \<or>
       (\<exists>pc. init_ticker env hist t = Inr (v, pc) \<and> prev_close s' t = Some pc))"
proof -
  let ?I = "\<lambda>(i::nat) (s1::state) (tot::real) (evs1::init_event list).
     dom (prev_close s1) = dom (shares_outstanding s1) \<and>
     dom (last_price s1) = dom (shares_outstanding s1) \<and>
     (\<forall>t v. shares_outstanding s1 t = Some v \<longrightarrow>
        shares_outstanding s t = Some v \<or>
        (\<exists>pc. init_ticker env hist t = Inr (v, pc) \<and> prev_close s1 t = Some pc))"
  have "\<exists>i'. ?I i' s' tot' evs' \<and> length (tickers s') \<le> i'"
  proof (rule init_loop_rule[where I = ?I, OF _ _ _ assms(1)])
    show "?I i s tot evs" using assms(2,3) by simp
  next
    fix i s1 tot evs1 sh pc
    assume "?I i s1 tot evs1" and "init_ticker env hist (tickers s1 ! i) = Inr (sh, pc)"
    then show "?I (Suc i)
        (s1\<lparr>shares_outstanding := (shares_outstanding s1)(tickers s1 ! i \<mapsto> sh),
            prev_close := (prev_close s1)(tickers s1 ! i \<mapsto> pc),
            last_price := (last_price s1)(tickers s1 ! i \<mapsto> pc)\<rparr>)
        (tot + sh * pc) (evs1 @ [Initialized (tickers s1 ! i) pc])"
      by auto
  next
    fix i s1 tot evs1 e
    assume "?I i s1 tot evs1"
    then show "?I (Suc i) (s1\<lparr>tickers := remove1 (tickers s1 ! i) (tickers s1)\<rparr>) tot
        (evs1 @ [Excluded (tickers s1 ! i) e])"
      by simp
  qed
  then show ?thesis by simp
qed

text \<open>
  On a basket without repetitions the running total is the sum, over the tickers stored
  so far, of shares times previous close.
\<close>

lemma init_loop_total:
  assumes "init_loop env hist i s tot evs = (s', tot', evs')" and "distinct (tickers s)"
    and "finite (dom (shares_outstanding s))"
    and "dom (shares_outstanding s) \<inter> set (drop i (tickers s)) = {}"
    and "tot = (\<Sum>t\<in>dom (shares_outstanding s). the (shares_outstanding s t) * the (prev_close s t))"
  shows "tot' = (\<Sum>t\<in>dom (shares_outstanding s'). the (shares_outstanding s' t) * the (prev_close s' t))"
proof -
  let ?I = "\<lambda>(i::nat) (s1::state) (tot::real) (evs1::init_event list).
     distinct (tickers s1) \<and> finite (dom (shares_outstanding s1)) \<and>
     dom (shares_outstanding s1) \<inter> set (drop i (tickers s1)) = {} \<and>
     tot = (\<Sum>t\<in>dom (shares_outstanding s1). the (shares_outstanding s1 t) * the (prev_close s1 t))"
  have "\<exists>i'. ?I i' s' tot' evs' \<and> length (tickers s') \<le> i'"
  proof (rule init_loop_rule[where I = ?I, OF _ _ _ assms(1)])
    show "?I i s tot evs" using assms(2-5) by simp
  next
    fix i s1 tot evs1 sh pc
    assume I: "?I i s1 tot evs1" and i: "i < length (tickers s1)"
    let ?t = "tickers s1 ! i" and ?D = "dom (shares_outstanding s1)"
    let ?f = "\<lambda>t. the (shares_outstanding s1 t) * the (prev_close s1 t)"
    let ?g = "\<lambda>t. the (((shares_outstanding s1)(?t \<mapsto> sh)) t) * the (((prev_close s1)(?t \<mapsto> pc)) t)"
    from i have "?t \<in> set (drop i (tickers s1))"
      by (metis Cons_nth_drop_Suc list.set_intros(1))
    with I have new: "?t \<notin> ?D" by blast
    from I have fin: "finite ?D" by simp
    have "sum ?g ?D = sum ?f ?D"
      by (rule sum.cong) (use new in auto)
    with new fin I have tot: "tot + sh * pc = sum ?g (insert ?t ?D)"
      by simp
    have "set (drop (Suc i) (tickers s1)) \<subseteq> set (drop i (tickers s1))"
      by (rule set_drop_subset_set_drop) simp
    with I nth_notin_drop_Suc[of "tickers s1" i] i
    have "insert ?t ?D \<inter> set (drop (Suc i) (tickers s1)) = {}" by auto
    with I tot show "?I (Suc i)
        (s1\<lparr>shares_outstanding := (shares_outstanding s1)(tickers s1 ! i \<mapsto> sh),
            prev_close := (prev_close s1)(tickers s1 ! i \<mapsto> pc),
            last_price := (last_price s1)(tickers s1 ! i \<mapsto> pc)\<rparr>)
        (tot + sh * pc) (evs1 @ [Initialized (tickers s1 ! i) pc])"
      by simp
  next
    fix i s1 tot evs1 e
    assume I: "?I i s1 tot evs1" and i: "i < length (tickers s1)"
    from I i have "drop (Suc i) (remove1 (tickers s1 ! i) (tickers s1)) = drop (Suc (Suc i)) (tickers s1)"
      by (simp add: drop_Suc_remove1_nth)
    moreover have "set (drop (Suc (Suc i)) (tickers s1)) \<subseteq> set (drop i (tickers s1))"
      by (rule set_drop_subset_set_drop) simp
    ultimately show "?I (Suc i) (s1\<lparr>tickers := remove1 (tickers s1 ! i) (tickers s1)\<rparr>) tot
        (evs1 @ [Excluded (tickers s1 ! i) e])"
      using I by auto
  qed
  then show ?thesis by blast
qed

text \<open>
  The ticker after one that is excluded: the removal moves it to the position just read,
  so the loop never reads it. It stays in the basket, with no entry and no report.
\<close>

lemma init_loop_skips:
  assumes loop: "init_loop env hist i s tot evs = (s', tot', evs')"
    and dist: "distinct (tickers s)"
    and fresh: "dom (shares_outstanding s) \<inter> set (drop i (tickers s)) = {}"
    and adj: "drop i (tickers s) = pre @ a # b # post"
    and quiet: "\<forall>e. Excluded a e \<notin> set evs" "\<forall>e. Excluded b e \<notin> set evs"
      "\<forall>p. Initialized b p \<notin> set evs"
    and excl: "Excluded a e \<in> set evs'"
  shows "b \<in> set (tickers s') \<and> shares_outstanding s' b = None \<and>
    (\<forall>e. Excluded b e \<notin> set evs') \<and> (\<forall>p. Initialized b p \<notin> set evs')"
proof -
  let ?quiet = "\<lambda>evs1. (\<forall>e. Excluded b e \<notin> set evs1) \<and> (\<forall>p. Initialized b p \<notin> set evs1)"
  let ?I = "\<lambda>(i::nat) (s1::state) (tot::real) (evs1::init_event list).
     distinct (tickers s1) \<and>
     dom (shares_outstanding s1) \<inter> set (drop i (tickers s1)) = {} \<and>
     (((\<forall>e. Excluded a e \<notin> set evs1) \<and> ?quiet evs1 \<and>
         (\<exists>pre post. drop i (tickers s1) = pre @ a # b # post)) \<or>
      ((\<forall>e. Excluded a e \<notin> set evs1) \<and> a \<notin> set (drop i (tickers s1))) \<or>
      (b \<in> set (take i (tickers s1)) \<and> shares_outstanding s1 b = None \<and> ?quiet evs1))"
  have "\<exists>i'. ?I i' s' tot' evs' \<and> length (tickers s') \<le> i'"
  proof (rule init_loop_rule[where I = ?I, OF _ _ _ loop])
    show "?I i s tot evs" using dist fresh adj quiet by blast
  next
    fix i s1 tot evs1 sh pc
    assume I: "?I i s1 tot evs1" and i: "i < length (tickers s1)"
    let ?L = "tickers s1" and ?t = "tickers s1 ! i"
    let ?evs = "evs1 @ [Initialized ?t pc]"
    from I have d: "distinct ?L" by simp
    have hd: "drop i ?L = ?t # drop (Suc i) ?L" using i by (simp add: Cons_nth_drop_Suc)
    have t_tl: "?t \<notin> set (drop (Suc i) ?L)" using d i by (rule nth_notin_drop_Suc)
    have t_tk: "?t \<notin> set (take i ?L)" using d i by (rule nth_notin_take)
    from I hd t_tl have fresh': "insert ?t (dom (shares_outstanding s1)) \<inter> set (drop (Suc i) ?L) = {}"
      by auto
    have "((\<forall>e. Excluded a e \<notin> set ?evs) \<and> ?quiet ?evs \<and>
           (\<exists>pre post. drop (Suc i) ?L = pre @ a # b # post)) \<or>
          ((\<forall>e. Excluded a e \<notin> set ?evs) \<and> a \<notin> set (drop (Suc i) ?L)) \<or>
          (b \<in> set (take (Suc i) ?L) \<and> ((shares_outstanding s1)(?t \<mapsto> sh)) b = None \<and> ?quiet ?evs)"
    proof -
      consider
        (ahead) pre post where "\<forall>e. Excluded a e \<notin> set evs1" "?quiet evs1"
          "drop i ?L = pre @ a # b # post"
      | (missed) "\<forall>e. Excluded a e \<notin> set evs1" "a \<notin> set (drop i ?L)"
      | (skipped) "b \<in> set (take i ?L)" "shares_outstanding s1 b = None" "?quiet evs1"
        using I by (elim conjE disjE exE) auto
      then show ?thesis
      proof cases
        case ahead
        show ?thesis
        proof (cases pre)
          case Nil
          with ahead(3) hd have "a = ?t" by simp
          with t_tl ahead(1) show ?thesis by simp
        next
          case (Cons x pre')
          with ahead(3) hd have tl: "drop (Suc i) ?L = pre' @ a # b # post" by simp
          then have "b \<in> set (drop (Suc i) ?L)" by simp
          with t_tl have "b \<noteq> ?t" by auto
          with ahead(1,2) tl show ?thesis by auto
        qed
      next
        case missed
        with hd show ?thesis by auto
      next
        case skipped
        with t_tk have "b \<noteq> ?t" by auto
        moreover from skipped(1) have "b \<in> set (take (Suc i) ?L)"
          by (meson le_SucI order_refl set_take_subset_set_take subsetD)
        ultimately show ?thesis using skipped(2,3) by simp
      qed
    qed
    with d fresh' show "?I (Suc i)
        (s1\<lparr>shares_outstanding := (shares_outstanding s1)(tickers s1 ! i \<mapsto> sh),
            prev_close := (prev_close s1)(tickers s1 ! i \<mapsto> pc),
            last_price := (last_price s1)(tickers s1 ! i \<mapsto> pc)\<rparr>)
        (tot + sh * pc) (evs1 @ [Initialized (tickers s1 ! i) pc])"
      by simp
  next
    fix i s1 tot evs1 e'
    assume I: "?I i s1 tot evs1" and i: "i < length (tickers s1)"
    let ?L = "tickers s1" and ?t = "tickers s1 ! i"
    let ?L1 = "remove1 ?t ?L"
    let ?evs = "evs1 @ [Excluded ?t e']"
    from I have d: "distinct ?L" by simp
    have hd: "drop i ?L = ?t # drop (Suc i) ?L" using i by (simp add: Cons_nth_drop_Suc)
    have t_tl: "?t \<notin> set (drop (Suc i) ?L)" using d i by (rule nth_notin_drop_Suc)
    have t_tk: "?t \<notin> set (take i ?L)" using d i by (rule nth_notin_take)
    have dr: "drop (Suc i) ?L1 = drop (Suc (Suc i)) ?L" using d i by (rule drop_Suc_remove1_nth)
    have tk: "take (Suc i) ?L1 = take i ?L @ take 1 (drop (Suc i) ?L)"
      using d i by (rule take_Suc_remove1_nth)
    have dr2: "drop (Suc (Suc i)) ?L = tl (drop (Suc i) ?L)" by (simp add: drop_Suc tl_drop)
    have sub: "set (drop (Suc (Suc i)) ?L) \<subseteq> set (drop i ?L)"
      by (rule set_drop_subset_set_drop) simp
    with I dr have fresh': "dom (shares_outstanding s1) \<inter> set (drop (Suc i) ?L1) = {}"
      by auto
    have "((\<forall>e. Excluded a e \<notin> set ?evs) \<and> ?quiet ?evs \<and>
           (\<exists>pre post. drop (Suc i) ?L1 = pre @ a # b # post)) \<or>
          ((\<forall>e. Excluded a e \<notin> set ?evs) \<and> a \<notin> set (drop (Suc i) ?L1)) \<or>
          (b \<in> set (take (Suc i) ?L1) \<and> shares_outstanding s1 b = None \<and> ?quiet ?evs)"
    proof -
      consider
        (ahead) pre post where "\<forall>e. Excluded a e \<notin> set evs1" "?quiet evs1"
          "drop i ?L = pre @ a # b # post"
      | (missed) "\<forall>e. Excluded a e \<notin> set evs1" "a \<notin> set (drop i ?L)"
      | (skipped) "b \<in> set (take i ?L)" "shares_outstanding s1 b = None" "?quiet evs1"
        using I by (elim conjE disjE exE) auto
      then show ?thesis
      proof cases
        case ahead
        from ahead(3) have b_in: "b \<in> set (drop i ?L)" by simp
        with I have b_none: "shares_outstanding s1 b = None" by blast
        show ?thesis
        proof (cases pre)
          case Nil
          with ahead(3) hd have a: "a = ?t" and tl: "drop (Suc i) ?L = b # post" by simp_all
          from tl t_tl have "b \<noteq> ?t" by auto
          moreover from tl tk have "b \<in> set (take (Suc i) ?L1)" by simp
          ultimately show ?thesis using b_none ahead(2) by simp
        next
          case (Cons x pre')
          with ahead(3) hd have tl: "drop (Suc i) ?L = pre' @ a # b # post" by simp
          then have "a \<in> set (drop (Suc i) ?L)" "b \<in> set (drop (Suc i) ?L)" by simp_all
          with t_tl have ne: "a \<noteq> ?t" "b \<noteq> ?t" by auto
          show ?thesis
          proof (cases pre')
            case Nil
            with tl dr dr2 have "drop (Suc i) ?L1 = b # post" by simp
            moreover from d have "distinct (drop (Suc i) ?L)" by simp
            with tl Nil have "a \<notin> set (b # post)" by simp
            ultimately show ?thesis using ahead(1) ne by simp
          next
            case (Cons y pre'')
            with tl dr dr2 have "drop (Suc i) ?L1 = pre'' @ a # b # post" by simp
            with ahead(1,2) ne show ?thesis by auto
          qed
        qed
      next
        case missed
        from missed(2) hd have "a \<noteq> ?t" by auto
        moreover from missed(2) sub dr have "a \<notin> set (drop (Suc i) ?L1)" by auto
        ultimately show ?thesis using missed(1) by simp
      next
        case skipped
        with t_tk have "b \<noteq> ?t" by auto
        moreover from skipped(1) tk have "b \<in> set (take (Suc i) ?L1)" by simp
        ultimately show ?thesis using skipped(2,3) by simp
      qed
    qed
    with d fresh' show "?I (Suc i) (s1\<lparr>tickers := remove1 (tickers s1 ! i) (tickers s1)\<rparr>) tot
        (evs1 @ [Excluded (tickers s1 ! i) e'])"
      by simp
  qed
  then obtain i' where fin: "?I i' s' tot' evs'" and i': "length (tickers s') \<le> i'" by blast
  from i' have "drop i' (tickers s') = []" by simp
  with fin excl have "b \<in> set (take i' (tickers s')) \<and> shares_outstanding s' b = None \<and> ?quiet evs'"
    by auto
  moreover have "set (take i' (tickers s')) \<subseteq> set (tickers s')" by (rule set_take_subset)
  ultimately show ?thesis by blast
qed

lemma init_loop_subset:
  assumes "init_loop env hist i s tot evs = (s', tot', evs')"
  shows "set (tickers s') \<subseteq> set (tickers s)"
proof -
  let ?I = "\<lambda>(i::nat) (s1::state) (tot::real) (evs1::init_event list).
     set (tickers s1) \<subseteq> set (tickers s)"
  have "\<exists>i'. ?I i' s' tot' evs' \<and> length (tickers s') \<le> i'"
  proof (rule init_loop_rule[where I = ?I, OF _ _ _ assms])
    fix i s1 tot evs1 e
    assume "?I i s1 tot evs1"
    then show "?I (Suc i) (s1\<lparr>tickers := remove1 (tickers s1 ! i) (tickers s1)\<rparr>) tot
        (evs1 @ [Excluded (tickers s1 ! i) e])"
      using set_remove1_subset[of "tickers s1 ! i" "tickers s1"] by auto
  qed simp_all
  then show ?thesis by simp
qed

subsection \<open>Startup\<close>

lemma setup_sidebar_apply:
  "setup_sidebar ts m t = (if t \<in> set ts then Some (sidebar_row t) else m t)"
  by (induction ts arbitrary: m) auto

lemma startup_Inr:
  assumes "startup env ts = Inr (s0, evs)"
  obtains hist s' tot where "hist_fetch env = Inr hist" "\<not> tbl_empty hist" "2 \<le> length (rows hist)"
    "init_loop env hist 0 (module_state ts) 0 [] = (s', tot, evs)" "tot \<noteq> 0"
    "s0 = s'\<lparr>base_market_cap := tot\<rparr>"
proof -
  from assms obtain hist where h: "hist_fetch env = Inr hist"
    by (cases "hist_fetch env") (simp_all add: startup_def initialize_index_def)
  obtain s' tot evs' where l: "init_loop env hist 0 (module_state ts) 0 [] = (s', tot, evs')"
    by (cases "init_loop env hist 0 (module_state ts) 0 []") auto
  from assms h l have "\<not> tbl_empty hist \<and> 2 \<le> length (rows hist) \<and> tot \<noteq> 0 \<and> evs' = evs \<and>
      s0 = s'\<lparr>base_market_cap := tot\<rparr>"
    by (auto simp: startup_def initialize_index_def split: if_splits)
  with h l that show thesis by blast
qed

lemma startup_consistent:
  assumes "startup env ts = Inr (s0, evs)"
  shows "consistent s0"
proof -
  from assms obtain hist s' tot where
    l: "init_loop env hist 0 (module_state ts) 0 [] = (s', tot, evs)" and tot: "tot \<noteq> 0"
    and s0: "s0 = s'\<lparr>base_market_cap := tot\<rparr>"
    by (rule startup_Inr)
  have "dom (prev_close s') = dom (shares_outstanding s') \<and>
        dom (last_price s') = dom (shares_outstanding s')"
    using init_loop_entries[OF l] by (simp add: module_state_def)
  moreover have "set (tickers s') \<subseteq> dom (text_artists s')"
  proof
    fix t assume "t \<in> set (tickers s')"
    with init_loop_subset[OF l] have "t \<in> set ts" by (auto simp: module_state_def)
    moreover have "text_artists s' = setup_sidebar ts Map.empty"
      using init_loop_frame[OF l] by (simp add: module_state_def)
    ultimately have "text_artists s' t = Some (sidebar_row t)"
      by (simp add: setup_sidebar_apply)
    then show "t \<in> dom (text_artists s')" by (rule domI)
  qed
  moreover have "index_values s' = [] \<and> timestamps s' = []"
    using init_loop_frame[OF l] by (simp add: module_state_def)
  ultimately show ?thesis using tot s0 by (simp add: consistent_def)
qed

lemma startup_history:
  assumes "startup env ts = Inr (s0, evs)"
  shows "index_values s0 = []" "timestamps s0 = []" "text_artists s0 = setup_sidebar ts Map.empty"
proof -
  from assms obtain hist s' tot where
    l: "init_loop env hist 0 (module_state ts) 0 [] = (s', tot, evs)"
    and s0: "s0 = s'\<lparr>base_market_cap := tot\<rparr>"
    by (rule startup_Inr)
  from init_loop_frame[OF l] s0
  show "index_values s0 = []" "timestamps s0 = []" "text_artists s0 = setup_sidebar ts Map.empty"
    by (simp_all add: module_state_def)
qed

subsection \<open>The worked examples, evaluated\<close>

lemma ex_startup:
  "startup ex_env [''A'', ''B''] = Inr (ex_state, [Initialized ''A'' 100, Initialized ''B'' 200])"
  by (simp add: startup_def initialize_index_def ex_env_def ex_hist_def tbl_empty_def module_state_def
      init_ticker_def ticker_shares_def info_get_def close_iloc_m2_def ex_state_def)

lemma ex_fetched: "fetched ex_tick = Some ex_latest"
  by (auto simp: fetched_def fetch_live_def try_intraday_def ex_tick_def tbl_empty_def last_row_def ex_latest_def fun_eq_iff)


section \<open>The claims\<close>

text \<open>
  Claim C1. In a cycle of the running program that has fetched prices, where every
  basket ticker with a price has its share count, the cycle runs to its end and the
  value it appends is \<open>INDEX_BASE_VALUE * current_total_cap / base_market_cap\<close>,
  with \<open>current_total_cap\<close> the sum of shares times latest price over the basket
  tickers present in the prices; when that sum equals the base the value is
  \<open>INDEX_BASE_VALUE\<close>. The witness is the basket of two, whose tick gives 1050.
\<close>

theorem index_value_formula:
  assumes "startup env ts = Inr (s0, ievs)" and "s = run cs s0"
    and "fetched c = Some latest"
    and "\<forall>t\<in>set (tickers s). latest t \<noteq> None \<longrightarrow> shares_outstanding s t \<noteq> None"
    and "current_total_cap =
           (\<Sum>t\<leftarrow>filter (\<lambda>t. latest t \<noteq> None) (tickers s). the (shares_outstanding s t) * the (latest t))"
  shows "fst (snd (update c s)) = Completed \<and>
    index_values (fst (update c s)) \<noteq> [] \<and>
    last (index_values (fst (update c s))) = INDEX_BASE_VALUE * current_total_cap / base_market_cap s \<and>
    (current_total_cap = base_market_cap s \<longrightarrow>
       last (index_values (fst (update c s))) = INDEX_BASE_VALUE)"
proof -
  have cons: "consistent s"
    using assms(1,2) by (simp add: startup_consistent run_consistent)
  then have base: "base_market_cap s \<noteq> 0"
    and len: "length (index_values s) = length (timestamps s)"
      "length (index_values s) \<le> MAX_DATAPOINTS"
    by (simp_all add: consistent_def)
  have sum: "cap_sum (shares_outstanding s) latest (tickers s) 0 = Inr current_total_cap"
    using cap_sum_Inr[OF assms(4), of 0] assms(5) by simp
  let ?v = "INDEX_BASE_VALUE * (current_total_cap / base_market_cap s)"
  from update_completes[OF cons assms(3) sum] obtain s2 where
    u: "update c s = (s2, Completed, snd (fetch_live c (tickers s)))"
    and l: "sidebar_loop latest (tickers s) (redraw (append_history ?v (now c) s)) = (None, s2)"
    by blast
  have iv: "index_values s2 = index_values (append_history ?v (now c) s)"
    using sidebar_loop_frame[OF l] by (simp add: redraw_frame)
  have "index_values s2 \<noteq> []" and "last (index_values s2) = ?v"
    using append_history_lengths(3,4)[OF len, of ?v "now c"] iv by simp_all
  with u base show ?thesis by simp
qed

theorem index_value_formula_witness:
  "startup ex_env [''A'', ''B''] = Inr (ex_state, [Initialized ''A'' 100, Initialized ''B'' 200]) \<and>
   fetched ex_tick = Some ex_latest \<and>
   fst (snd (update ex_tick ex_state)) = Completed \<and>
   last (index_values (fst (update ex_tick ex_state))) = 1050"
proof -
  have "\<forall>t\<in>set (tickers (run [] ex_state)).
          ex_latest t \<noteq> None \<longrightarrow> shares_outstanding (run [] ex_state) t \<noteq> None"
    by (simp add: ex_state_def ex_latest_def)
  from index_value_formula[OF ex_startup _ ex_fetched this refl, of "[]"]
  show ?thesis
    by (simp add: ex_startup ex_fetched ex_state_def ex_latest_def INDEX_BASE_VALUE_def)
qed

lemma ex_tick_history:
  "fst (snd (update ex_tick ex_state)) = Completed"
  "index_values (fst (update ex_tick ex_state)) = [1050]"
  "timestamps (fst (update ex_tick ex_state)) = [''09:30:15'']"
  unfolding update_with_prices[OF ex_fetched]
  by (simp_all add: ex_state_def ex_latest_def ex_tick_def
      INDEX_BASE_VALUE_def append_history_def MAX_DATAPOINTS_def redraw_def sidebar_ticker_def
      sidebar_row_def Let_def)



lemma ex_closed_fetch:
  "intraday ex_closed = Inr \<lparr>columns = [], rows = []\<rparr>"
  "daily ex_closed = Inr \<lparr>columns = [], rows = []\<rparr>"
  "tbl_empty \<lparr>columns = [], rows = []\<rparr>"
  by (simp_all add: ex_closed_def tbl_empty_def)

text \<open>
  Claim C3. When the intraday download raises or comes back empty, the cycle goes on to
  the daily download: its events are the intraday download, the warning on the first two
  frames, the daily download, and then whatever the rest of the cycle prints. When the
  daily table is empty as well the cycle ends there, skipped, and the state is the one
  it started with.
\<close>

theorem fallback_before_skip:
  assumes "(\<exists>e. intraday c = Inl e) \<or> (\<exists>t. intraday c = Inr t \<and> tbl_empty t)"
  shows "(\<exists>rest. snd (snd (update c s)) =
            Download (tickers s) ''2m'' ''1m'' # (if frame c < 2 then [Print_warning] else [])
              @ Download (tickers s) ''1d'' ''1d'' # rest) \<and>
    ((\<exists>t. daily c = Inr t \<and> tbl_empty t) \<longrightarrow>
       update c s =
         (s, Skipped,
          Download (tickers s) ''2m'' ''1m'' # (if frame c < 2 then [Print_warning] else [])
            @ [Download (tickers s) ''1d'' ''1d'']))"
proof -
  let ?evs = "Download (tickers s) ''2m'' ''1m'' # (if frame c < 2 then [Print_warning] else [])
     @ [Download (tickers s) ''1d'' ''1d'']"
  from assms have no: "\<not> (\<exists>t. intraday c = Inr t \<and> \<not> tbl_empty t)" by auto
  then have f: "fetch_live c (tickers s) = (daily c, ?evs)"
    using fetch_live_fallback[OF no, of "tickers s"] snd_fetch_live[of c "tickers s"]
    by (simp add: prod_eq_iff)
  have "\<exists>rest. snd (snd (update c s)) = ?evs @ rest"
    unfolding update_def f
    by (auto simp: Let_def split: sum.splits option.splits prod.splits)
  moreover have "(\<exists>t. daily c = Inr t \<and> tbl_empty t) \<longrightarrow> update c s = (s, Skipped, ?evs)"
    unfolding update_def f by auto
  ultimately show ?thesis by simp
qed

theorem fallback_before_skip_witness:
  "intraday ex_closed = Inr \<lparr>columns = [], rows = []\<rparr> \<and>
   daily ex_closed = Inr \<lparr>columns = [], rows = []\<rparr> \<and>
   tbl_empty \<lparr>columns = [], rows = []\<rparr> \<and>
   update ex_closed ex_state =
     (ex_state, Skipped,
      [Download [''A'', ''B''] ''2m'' ''1m'', Print_warning, Download [''A'', ''B''] ''1d'' ''1d''])"
proof -
  have "(\<exists>e. intraday ex_closed = Inl e) \<or> (\<exists>t. intraday ex_closed = Inr t \<and> tbl_empty t)"
    using ex_closed_fetch by simp
  from fallback_before_skip[OF this, of ex_state] ex_closed_fetch
  have "update ex_closed ex_state =
     (ex_state, Skipped,
      Download (tickers ex_state) ''2m'' ''1m'' # (if frame ex_closed < 2 then [Print_warning] else [])
        @ [Download (tickers ex_state) ''1d'' ''1d''])"
    by simp
  then show ?thesis using ex_closed_fetch
    by (simp add: ex_state_def ex_closed_def)
qed








lemma drop_startup: "startup drop_env [''A'', ''B'', ''C''] = Inr (drop_state, drop_events)"
  by (simp add: startup_def initialize_index_def drop_env_def drop_hist_def tbl_empty_def
      module_state_def init_ticker_def ticker_shares_def info_get_def close_iloc_m2_def
      drop_state_def drop_events_def)

lemma drop_tick_fetched: "fetched drop_tick = Some [''B'' \<mapsto> 201]"
  by (auto simp: fetched_def fetch_live_def try_intraday_def drop_tick_def tbl_empty_def last_row_def fun_eq_iff)


lemma drop_tick_update:
  "update drop_tick drop_state =
     (drop_state, Caught (KeyError ''B''),
      [Download [''B'', ''C''] ''2m'' ''1m'', Print_error (KeyError ''B'')])"
  unfolding update_with_prices[OF drop_tick_fetched]
  by (simp add: drop_state_def fetch_live_def try_intraday_def drop_tick_def tbl_empty_def)

lemma init_loop_events:
  assumes "init_loop env hist i s tot evs = (s', tot', evs')"
  shows "\<forall>a e. Excluded a e \<in> set evs' \<longrightarrow> Excluded a e \<in> set evs \<or> a \<in> set (tickers s)"
proof -
  let ?I = "\<lambda>(i::nat) (s1::state) (tot::real) (evs1::init_event list).
     set (tickers s1) \<subseteq> set (tickers s) \<and>
     (\<forall>a e. Excluded a e \<in> set evs1 \<longrightarrow> Excluded a e \<in> set evs \<or> a \<in> set (tickers s))"
  have "\<exists>i'. ?I i' s' tot' evs' \<and> length (tickers s') \<le> i'"
  proof (rule init_loop_rule[where I = ?I, OF _ _ _ assms])
    fix i s1 tot evs1 e
    assume I: "?I i s1 tot evs1" and i: "i < length (tickers s1)"
    from i have "tickers s1 ! i \<in> set (tickers s1)" by simp
    with I show "?I (Suc i) (s1\<lparr>tickers := remove1 (tickers s1 ! i) (tickers s1)\<rparr>) tot
        (evs1 @ [Excluded (tickers s1 ! i) e])"
      using set_remove1_subset[of "tickers s1 ! i" "tickers s1"]
      by auto
  qed simp_all
  then show ?thesis by simp
qed

text \<open>A cycle writes the last price and the sidebar row of no ticker but those that are
  in the basket and have a price.\<close>

lemma update_untouched:
  assumes "u \<notin> set (tickers s) \<or> (\<forall>latest. fetched c = Some latest \<longrightarrow> latest u = None)"
  shows "last_price (fst (update c s)) u = last_price s u \<and>
    text_artists (fst (update c s)) u = text_artists s u"
proof (cases "fetched c")
  case None
  then show ?thesis by (simp add: update_no_prices(1))
next
  case (Some latest)
  with assms have u: "latest u = None \<or> u \<notin> set (tickers s)" by auto
  show ?thesis
  proof (cases "cap_sum (shares_outstanding s) latest (tickers s) 0")
    case (Inl e)
    then show ?thesis by (simp add: update_with_prices[OF Some])
  next
    case (Inr cap)
    show ?thesis
    proof (cases "base_market_cap s = 0")
      case True
      with Inr show ?thesis by (simp add: update_with_prices[OF Some])
    next
      case False
      let ?s1 = "redraw (append_history (INDEX_BASE_VALUE * (cap / base_market_cap s)) (now c) s)"
      obtain r s2 where l: "sidebar_loop latest (tickers s) ?s1 = (r, s2)"
        by (cases "sidebar_loop latest (tickers s) ?s1")
      with Inr False have "fst (update c s) = s2"
        by (cases r) (simp_all add: update_with_prices[OF Some])
      with sidebar_loop_untouched[OF l u] show ?thesis
        by (simp add: redraw_frame append_history_frame)
    qed
  qed
qed

lemma run_untouched:
  assumes "u \<notin> set (tickers s)"
  shows "last_price (run cs s) u = last_price s u \<and> text_artists (run cs s) u = text_artists s u"
  using assms
proof (induction cs arbitrary: s)
  case Nil
  then show ?case by simp
next
  case (Cons c cs)
  from Cons.prems have "u \<notin> set (tickers (fst (update c s)))" using update_frame[of c s] by simp
  from Cons.IH[OF this] update_untouched[of u s c] Cons.prems show ?case by simp
qed

text \<open>
  Claim C5, as stated, fails on its last part. The sidebar rows are made when the module
  is loaded, before the initializer runs; the row of a ticker that the initializer then
  drops stays on the figure, label included. In the basket of three, A is dropped and its
  row is still there.
\<close>

theorem dropped_ticker_row_counterexample:
  "startup drop_env [''A'', ''B'', ''C''] = Inr (drop_state, drop_events) \<and>
   Excluded ''A'' (ProviderError ''no data'') \<in> set drop_events \<and>
   text_artists drop_state ''A'' =
     Some (\<lparr>a_text = Label ''A:'', a_color = Primary\<rparr>,
           \<lparr>a_text = Blank, a_color = Primary\<rparr>,
           \<lparr>a_text = Blank, a_color = Primary\<rparr>)"
  using drop_startup by (simp add: drop_events_def drop_state_def sidebar_row_def)

text \<open>
  Claim C5, amended. On a basket without repetitions, a ticker that the initializer
  reports as excluded is in the basket of no later state, so no market-cap sum has a term
  for it (the sum is the same whatever its share count and price), and no cycle writes
  its sidebar row: the price and percent texts of that row stay empty.
\<close>

theorem dropped_ticker_stays_out:
  assumes "distinct ts" and "startup env ts = Inr (s0, ievs)"
    and "Excluded a e \<in> set ievs" and "s = run cs s0"
  shows "a \<notin> set (tickers s) \<and>
    cap_sum ((shares_outstanding s)(a := x)) (latest(a := y)) (tickers s) acc
      = cap_sum (shares_outstanding s) latest (tickers s) acc \<and>
    text_artists s a = Some (sidebar_row a)"
proof -
  from assms(2) obtain hist s' tot where
    l: "init_loop env hist 0 (module_state ts) 0 [] = (s', tot, ievs)"
    and s0: "s0 = s'\<lparr>base_market_cap := tot\<rparr>"
    by (rule startup_Inr)
  have d: "distinct (tickers (module_state ts))" using assms(1) by (simp add: module_state_def)
  from init_loop_basket[OF l d] assms(3) have out: "a \<notin> set (tickers s0)"
    by (auto simp: s0)
  then have out': "a \<notin> set (tickers s)" using run_frame[of cs s0] assms(4) by simp
  from init_loop_events[OF l] assms(3) have "a \<in> set ts" by (auto simp: module_state_def)
  then have "text_artists s0 a = Some (sidebar_row a)"
    using startup_history(3)[OF assms(2)] by (simp add: setup_sidebar_apply)
  with run_untouched[OF out, of cs] assms(4) have "text_artists s a = Some (sidebar_row a)"
    by simp
  with out' cap_sum_no_term[OF out'] show ?thesis by simp
qed

theorem dropped_ticker_stays_out_witness:
  "distinct [''A'', ''B'', ''C''] \<and>
   startup drop_env [''A'', ''B'', ''C''] = Inr (drop_state, drop_events) \<and>
   Excluded ''A'' (ProviderError ''no data'') \<in> set drop_events \<and>
   ''A'' \<notin> set (tickers (run [drop_quote] drop_state)) \<and>
   text_artists (run [drop_quote] drop_state) ''A'' = Some (sidebar_row ''A'')"
proof -
  have d: "distinct [''A'', ''B'', ''C'']" by simp
  have e: "Excluded ''A'' (ProviderError ''no data'') \<in> set drop_events"
    by (simp add: drop_events_def)
  from dropped_ticker_stays_out[OF d drop_startup e refl, of "[drop_quote]"] d e drop_startup
  show ?thesis by simp
qed




lemma py_div_Inr:
  assumes "py_div x y = Inr v"
  shows "\<exists>a b. x = PyNum a \<and> y = PyNum b \<and> b \<noteq> 0 \<and> v = a / b"
  using assms by (cases x; cases y) (auto split: if_splits)

text \<open>
  Claim C7. For a ticker that the initializer stored and whose \<open>sharesOutstanding\<close>
  is absent from the provider's dictionary, the stored share count is the market cap
  divided by the previous close, both read from that dictionary (0 and 1 standing in for
  a missing key, as in the source); and the base market cap is the sum, over the stored
  tickers, of that share count times the previous close.
\<close>

theorem estimated_shares:
  assumes "distinct ts" and "startup env ts = Inr (s0, ievs)"
    and "shares_outstanding s0 t = Some shares"
    and "info_fetch env t = Inr dict"
    and "info_get dict ''sharesOutstanding'' PyNone = PyNone"
  shows "\<exists>m p. info_get dict ''marketCap'' (PyNum 0) = PyNum m \<and>
      info_get dict ''previousClose'' (PyNum 1) = PyNum p \<and> p \<noteq> 0 \<and>
      shares = m / p \<and>
      base_market_cap s0 =
        (\<Sum>u\<in>dom (shares_outstanding s0). the (shares_outstanding s0 u) * the (prev_close s0 u))"
proof -
  from assms(2) obtain hist s' tot where
    l: "init_loop env hist 0 (module_state ts) 0 [] = (s', tot, ievs)"
    and s0: "s0 = s'\<lparr>base_market_cap := tot\<rparr>"
    by (rule startup_Inr)
  from assms(3) s0 have "shares_outstanding s' t = Some shares" by simp
  moreover have "\<forall>t v. shares_outstanding s' t = Some v \<longrightarrow>
      shares_outstanding (module_state ts) t = Some v \<or>
      (\<exists>pc. init_ticker env hist t = Inr (v, pc) \<and> prev_close s' t = Some pc)"
    using init_loop_entries[OF l] by (simp add: module_state_def)
  ultimately obtain pc where "init_ticker env hist t = Inr (shares, pc)"
    by (auto simp: module_state_def)
  with assms(4) have "ticker_shares dict = Inr shares"
    by (auto simp: init_ticker_def split: sum.splits)
  with assms(5) have "py_div (info_get dict ''marketCap'' (PyNum 0))
      (info_get dict ''previousClose'' (PyNum 1)) = Inr shares"
    by (simp add: ticker_shares_def)
  from py_div_Inr[OF this] obtain m p where
    mp: "info_get dict ''marketCap'' (PyNum 0) = PyNum m"
      "info_get dict ''previousClose'' (PyNum 1) = PyNum p" "p \<noteq> 0" "shares = m / p"
    by blast
  have "tot = (\<Sum>u\<in>dom (shares_outstanding s'). the (shares_outstanding s' u) * the (prev_close s' u))"
    by (rule init_loop_total[OF l]) (simp_all add: module_state_def assms(1))
  with s0 have "base_market_cap s0 =
      (\<Sum>u\<in>dom (shares_outstanding s0). the (shares_outstanding s0 u) * the (prev_close s0 u))"
    by simp
  with mp show ?thesis by blast
qed

theorem estimated_shares_witness:
  "distinct [''A'', ''B'', ''C''] \<and>
   startup drop_env [''A'', ''B'', ''C''] = Inr (drop_state, drop_events) \<and>
   shares_outstanding drop_state ''C'' = Some 100 \<and>
   info_fetch drop_env ''C'' = Inr [''marketCap'' \<mapsto> PyNum 3000, ''previousClose'' \<mapsto> PyNum 30] \<and>
   info_get [''marketCap'' \<mapsto> PyNum 3000, ''previousClose'' \<mapsto> PyNum 30] ''sharesOutstanding'' PyNone
     = PyNone \<and>
   (100::real) = 3000 / 30 \<and> base_market_cap drop_state = 100 * 30"
proof -
  have d: "distinct [''A'', ''B'', ''C'']" by simp
  have sh: "shares_outstanding drop_state ''C'' = Some 100" by (simp add: drop_state_def)
  have inf: "info_fetch drop_env ''C'' =
      Inr [''marketCap'' \<mapsto> PyNum 3000, ''previousClose'' \<mapsto> PyNum 30]"
    by (simp add: drop_env_def)
  have ab: "info_get [''marketCap'' \<mapsto> PyNum 3000, ''previousClose'' \<mapsto> PyNum 30]
      ''sharesOutstanding'' PyNone = PyNone"
    by (simp add: info_get_def)
  from estimated_shares[OF d drop_startup sh inf ab] d drop_startup sh inf ab
  show ?thesis by (simp add: drop_state_def)
qed

text \<open>What a cycle that runs to its end leaves in the histories and on the chart.\<close>

lemma update_completed_fields:
  assumes "update c s = (s', Completed, evs)"
  shows "\<exists>latest cap. fetched c = Some latest \<and>
    cap_sum (shares_outstanding s) latest (tickers s) 0 = Inr cap \<and>
    base_market_cap s \<noteq> 0 \<and>
    index_values s' =
       index_values (append_history (INDEX_BASE_VALUE * (cap / base_market_cap s)) (now c) s) \<and>
    timestamps s' =
       timestamps (append_history (INDEX_BASE_VALUE * (cap / base_market_cap s)) (now c) s) \<and>
    line_data s' = ([0..<length (index_values s')], index_values s') \<and>
    xlim s' = Some (0, real (max (length (index_values s') - 1) 1)) \<and>
    ylim s' = ylim (redraw (append_history (INDEX_BASE_VALUE * (cap / base_market_cap s)) (now c) s))"
proof -
  from assms update_no_prices(2)[of c s] obtain latest where f: "fetched c = Some latest"
    by (cases "fetched c") auto
  from assms obtain cap where cap: "cap_sum (shares_outstanding s) latest (tickers s) 0 = Inr cap"
    by (cases "cap_sum (shares_outstanding s) latest (tickers s) 0")
       (auto simp: update_with_prices[OF f])
  from assms cap have base: "base_market_cap s \<noteq> 0"
    by (auto simp: update_with_prices[OF f] split: if_splits)
  let ?h = "append_history (INDEX_BASE_VALUE * (cap / base_market_cap s)) (now c) s"
  obtain r s2 where l: "sidebar_loop latest (tickers s) (redraw ?h) = (r, s2)"
    by (cases "sidebar_loop latest (tickers s) (redraw ?h)")
  with assms cap base have "s' = s2"
    by (cases r) (auto simp: update_with_prices[OF f])
  with sidebar_loop_frame[OF l] have
    "index_values s' = index_values ?h" "timestamps s' = timestamps ?h"
    "line_data s' = line_data (redraw ?h)" "xlim s' = xlim (redraw ?h)"
    "ylim s' = ylim (redraw ?h)"
    by (simp_all add: redraw_frame)
  moreover have "line_data (redraw ?h) = ([0..<length (index_values ?h)], index_values ?h)"
    by (simp add: redraw_def Let_def)
  ultimately show ?thesis using f cap base by (simp add: redraw_xlim)
qed

lemma ex_after_fields:
  "index_values ex_after = [1050]" "timestamps ex_after = [''09:30:15'']"
  "xlim ex_after = Some (0, 1)" "ylim ex_after = None"
  "tickers ex_after = [''A'', ''B'']"
  "shares_outstanding ex_after = [''A'' \<mapsto> 10, ''B'' \<mapsto> 5]"
  "base_market_cap ex_after = 2000"
proof -
  obtain s' evs where u: "update ex_tick ex_state = (s', Completed, evs)"
    using ex_tick_history(1) by (cases "update ex_tick ex_state") auto
  then have s': "s' = ex_after" by (simp add: ex_after_def)
  show "index_values ex_after = [1050]" "timestamps ex_after = [''09:30:15'']"
    using ex_tick_history(2,3) by (simp_all add: ex_after_def)
  from update_completed_fields[OF u] obtain cap where
    iv: "index_values s' =
       index_values (append_history (INDEX_BASE_VALUE * (cap / base_market_cap ex_state)) (now ex_tick) ex_state)"
    and x: "xlim s' = Some (0, real (max (length (index_values s') - 1) 1))"
    and y: "ylim s' = ylim (redraw (append_history (INDEX_BASE_VALUE * (cap / base_market_cap ex_state)) (now ex_tick) ex_state))"
    by blast
  from x show "xlim ex_after = Some (0, 1)"
    by (simp add: s' \<open>index_values ex_after = [1050]\<close>)
  have "length (index_values s') = 1" by (simp add: s' \<open>index_values ex_after = [1050]\<close>)
  then have "ylim s' = ylim ex_state"
    unfolding y iv by (simp add: redraw_ylim append_history_frame)
  then show "ylim ex_after = None" by (simp add: s' ex_state_def)
  show "tickers ex_after = [''A'', ''B'']"
    "shares_outstanding ex_after = [''A'' \<mapsto> 10, ''B'' \<mapsto> 5]"
    "base_market_cap ex_after = 2000"
    using update_frame[of ex_tick ex_state] by (simp_all add: ex_after_def ex_state_def)
qed

lemma ex_after_consistent: "consistent ex_after"
  unfolding ex_after_def using startup_consistent[OF ex_startup] by (rule update_consistent)

text \<open>
  Claim C8, as stated, fails after the first cycle. With one value in the history line
  117 sets the x-axis to \<open>[0, max(len - 1, 1)] = [0, 1]\<close>, not to
  \<open>[0, len - 1] = [0, 0]\<close>, and the guard of line 118 leaves the y-axis alone: it is
  not set around the value at all.
\<close>

theorem first_cycle_axes_counterexample:
  "fst (snd (update ex_tick ex_state)) = Completed \<and>
   index_values (fst (update ex_tick ex_state)) = [1050] \<and>
   xlim (fst (update ex_tick ex_state)) = Some (0, 1) \<and>
   xlim (fst (update ex_tick ex_state))
     \<noteq> Some (0, real (length (index_values (fst (update ex_tick ex_state))) - 1)) \<and>
   ylim (fst (update ex_tick ex_state)) = None"
  using ex_tick_history(1) ex_after_fields(1,3,4) by (simp add: ex_after_def)

text \<open>
  Claim C8, amended. After a cycle that runs to its end the line is drawn over
  \<open>0, \<dots>, len - 1\<close> and the x-axis spans \<open>[0, max(len - 1, 1)]\<close>. With two or
  more values in the history the y-axis spans \<open>[min - padding, max + padding]\<close>, the
  padding being a tenth of \<open>max - min\<close> plus 0.01: it is positive, so the axis has a
  height even over a flat history. With a single value the y-axis is as it was.
\<close>

theorem chart_axes:
  assumes "update c s = (s', Completed, evs)"
    and "padding = (Max (set (index_values s')) - Min (set (index_values s'))) * 0.1 + 0.01"
  shows "line_data s' = ([0..<length (index_values s')], index_values s') \<and>
    xlim s' = Some (0, real (max (length (index_values s') - 1) 1)) \<and>
    (1 < length (index_values s') \<longrightarrow>
       ylim s' = Some (Min (set (index_values s')) - padding, Max (set (index_values s')) + padding) \<and>
       0 < padding \<and>
       Min (set (index_values s')) - padding < Max (set (index_values s')) + padding) \<and>
    (length (index_values s') \<le> 1 \<longrightarrow> ylim s' = ylim s)"
proof -
  from update_completed_fields[OF assms(1)] obtain cap where
    iv: "index_values s' =
       index_values (append_history (INDEX_BASE_VALUE * (cap / base_market_cap s)) (now c) s)"
    and ld: "line_data s' = ([0..<length (index_values s')], index_values s')"
    and x: "xlim s' = Some (0, real (max (length (index_values s') - 1) 1))"
    and y: "ylim s' = ylim (redraw (append_history (INDEX_BASE_VALUE * (cap / base_market_cap s)) (now c) s))"
    by blast
  have y': "ylim s' =
     (if 1 < length (index_values s')
      then Some (Min (set (index_values s')) - padding, Max (set (index_values s')) + padding)
      else ylim s)"
    unfolding y redraw_ylim iv[symmetric] assms(2) by (simp add: append_history_frame)
  have pos: "1 < length (index_values s') \<longrightarrow> 0 < padding"
  proof
    assume "1 < length (index_values s')"
    then have "index_values s' \<noteq> []" by auto
    then have "Min (set (index_values s')) \<le> Max (set (index_values s'))" by simp
    then have "0 \<le> (Max (set (index_values s')) - Min (set (index_values s'))) * 0.1"
      by simp
    moreover have "(0::real) < 0.01" by simp
    ultimately show "0 < padding" unfolding assms(2) by (rule add_nonneg_pos)
  qed
  have "1 < length (index_values s') \<longrightarrow>
       Min (set (index_values s')) - padding < Max (set (index_values s')) + padding"
  proof
    assume l: "1 < length (index_values s')"
    then have "index_values s' \<noteq> []" by auto
    then have "Min (set (index_values s')) \<le> Max (set (index_values s'))" by simp
    with pos l show "Min (set (index_values s')) - padding < Max (set (index_values s')) + padding"
      by simp
  qed
  with ld x y' pos show ?thesis by simp
qed


theorem chart_axes_witness:
  "fst (snd (update ex_tick ex_after)) = Completed \<and>
   index_values (fst (update ex_tick ex_after)) = [1050, 1050] \<and>
   xlim (fst (update ex_tick ex_after)) = Some (0, 1) \<and>
   ylim (fst (update ex_tick ex_after)) = Some (1050 - 0.01, 1050 + 0.01)"
proof -
  have cap: "cap_sum (shares_outstanding ex_after) ex_latest (tickers ex_after) 0 = Inr 2100"
    by (simp add: ex_after_fields ex_latest_def)
  from update_completes[OF ex_after_consistent ex_fetched cap] obtain s2 where
    u: "update ex_tick ex_after = (s2, Completed, snd (fetch_live ex_tick (tickers ex_after)))"
    by blast
  from update_completed_fields[OF u] ex_fetched cap have
    "index_values s2 =
       index_values (append_history (INDEX_BASE_VALUE * (2100 / base_market_cap ex_after))
          (now ex_tick) ex_after)"
    by auto
  then have iv: "index_values s2 = [1050, 1050]"
    by (simp add: append_history_values ex_after_fields MAX_DATAPOINTS_def INDEX_BASE_VALUE_def)
  from chart_axes[OF u refl] iv u show ?thesis by simp
qed

text \<open>
  Claim C9. Let the basket have no repetitions and let \<open>b\<close> come right after
  \<open>a\<close> in it. If the initializer reports \<open>a\<close> as excluded, then the loop never
  reads \<open>b\<close> (it reports nothing about it): in every later state \<open>b\<close> is in the
  basket and has no entry in \<open>shares_outstanding\<close>, \<open>prev_close\<close> or \<open>last_price\<close>,
  and every cycle whose fetched prices include \<open>b\<close> ends in the handler with a
  \<open>KeyError\<close> and the state, histories included, as it was.
\<close>

theorem following_ticker_skipped:
  assumes "distinct ts" and "ts = pre @ a # b # post"
    and "startup env ts = Inr (s0, ievs)" and "Excluded a e \<in> set ievs"
    and "s = run cs s0"
  shows "b \<in> set (tickers s) \<and>
    shares_outstanding s b = None \<and> prev_close s b = None \<and> last_price s b = None \<and>
    (\<forall>e'. Excluded b e' \<notin> set ievs) \<and> (\<forall>p. Initialized b p \<notin> set ievs) \<and>
    (fetched c = Some latest \<and> latest b \<noteq> None \<longrightarrow>
       (\<exists>k. fst (snd (update c s)) = Caught (KeyError k)) \<and> fst (update c s) = s)"
proof -
  from assms(3) obtain hist s' tot where
    l: "init_loop env hist 0 (module_state ts) 0 [] = (s', tot, ievs)"
    and s0: "s0 = s'\<lparr>base_market_cap := tot\<rparr>"
    by (rule startup_Inr)
  have skip: "b \<in> set (tickers s') \<and> shares_outstanding s' b = None \<and>
      (\<forall>e. Excluded b e \<notin> set ievs) \<and> (\<forall>p. Initialized b p \<notin> set ievs)"
  proof (rule init_loop_skips[OF l, where pre = pre and a = a and post = post and e = e])
    show "distinct (tickers (module_state ts))"
      using assms(1) by (simp add: module_state_def)
    show "drop 0 (tickers (module_state ts)) = pre @ a # b # post"
      using assms(2) by (simp add: module_state_def)
    show "Excluded a e \<in> set ievs" by fact
  qed (simp_all add: module_state_def)
  have doms: "dom (prev_close s') = dom (shares_outstanding s')"
    "dom (last_price s') = dom (shares_outstanding s')"
    using init_loop_entries[OF l] by (simp_all add: module_state_def)
  from skip have "b \<notin> dom (shares_outstanding s')" by (simp add: domIff)
  with doms have "b \<notin> dom (prev_close s0)" "b \<notin> dom (last_price s0)" by (simp_all add: s0)
  with run_frame[of cs s0] have "b \<notin> dom (prev_close s)" "b \<notin> dom (last_price s)"
    by (simp_all add: assms(5))
  then have none: "prev_close s b = None" "last_price s b = None"
    by (simp_all add: domIff)
  from skip run_frame[of cs s0] have b: "b \<in> set (tickers s)" "shares_outstanding s b = None"
    by (simp_all add: assms(5) s0)
  have "(\<exists>k. fst (snd (update c s)) = Caught (KeyError k)) \<and> fst (update c s) = s"
    if f: "fetched c = Some latest" and pr: "latest b \<noteq> None"
  proof -
    from b pr have "\<not> (\<exists>r. cap_sum (shares_outstanding s) latest (tickers s) 0 = Inr r)"
      unfolding cap_sum_Inr_iff by blast
    then obtain x where x: "cap_sum (shares_outstanding s) latest (tickers s) 0 = Inl x"
      by (cases "cap_sum (shares_outstanding s) latest (tickers s) 0") auto
    from cap_sum_Inl[OF x] obtain k where "x = KeyError k" by blast
    with x show ?thesis by (simp add: update_with_prices[OF f])
  qed
  with b none skip show ?thesis by blast
qed

theorem following_ticker_skipped_witness:
  "distinct [''A'', ''B'', ''C''] \<and>
   startup drop_env [''A'', ''B'', ''C''] = Inr (drop_state, drop_events) \<and>
   Excluded ''A'' (ProviderError ''no data'') \<in> set drop_events \<and>
   fetched drop_tick = Some [''B'' \<mapsto> 201] \<and>
   ''B'' \<in> set (tickers drop_state) \<and> shares_outstanding drop_state ''B'' = None \<and>
   fst (snd (update drop_tick drop_state)) = Caught (KeyError ''B'') \<and>
   fst (update drop_tick drop_state) = drop_state"
proof -
  have d: "distinct [''A'', ''B'', ''C'']" by simp
  have ts: "[''A'', ''B'', ''C''] = [] @ ''A'' # ''B'' # [''C'']" by simp
  have e: "Excluded ''A'' (ProviderError ''no data'') \<in> set drop_events"
    by (simp add: drop_events_def)
  from following_ticker_skipped[OF d ts drop_startup e refl, of "[]" drop_tick "[''B'' \<mapsto> 201]"]
    d e drop_startup drop_tick_fetched drop_tick_update
  show ?thesis by simp
qed




end
